theory Spec2Isabelle
  imports Main
begin

section \<open>Documents: the values the generator handles\<close>

text \<open>
  The configuration documents, the existing lint configuration and the project manifest are
  plain JavaScript values of JSON shape. A property list is kept in the order in which
  JavaScript enumerates the own properties of the object. Numbers are the integers.
\<close>

datatype jsval =
    JNull
  | JBool bool
  | JNum int
  | JStr string
  | JArr "jsval list"
  | JObj "(string \<times> jsval) list"

type_synonym props = "(string \<times> jsval) list"

datatype error = TypeError

text \<open>The test of \<open>||\<close>, \<open>? :\<close> and \<open>if\<close>: every array and object is truthy.\<close>

fun truthy :: "jsval \<Rightarrow> bool" where
  "truthy JNull = False"
| "truthy (JBool b) = b"
| "truthy (JNum n) = (n \<noteq> 0)"
| "truthy (JStr s) = (s \<noteq> [])"
| "truthy (JArr xs) = True"
| "truthy (JObj ps) = True"

subsection \<open>Own properties and their order\<close>

definition obj_get :: "props \<Rightarrow> string \<Rightarrow> jsval option" where
  "obj_get ps k = map_of ps k"

definition is_digit :: "char \<Rightarrow> bool" where
  "is_digit c = (48 \<le> (of_char c :: nat) \<and> (of_char c :: nat) \<le> 57)"

definition dec_value :: "string \<Rightarrow> nat" where
  "dec_value s = foldl (\<lambda>n c. 10 * n + ((of_char c :: nat) - 48)) 0 s"

text \<open>
  An array index is a canonical decimal string below \<open>2^32 - 1\<close>. JavaScript enumerates such
  keys first, in ascending order, and every other key after them in insertion order.
\<close>

definition array_index :: "string \<Rightarrow> bool" where
  "array_index k =
     (case k of
        [] \<Rightarrow> False
      | c # cs \<Rightarrow> is_digit c \<and> list_all is_digit cs \<and> (c \<noteq> CHR ''0'' \<or> cs = [])
                   \<and> dec_value k < 4294967295)"

fun insert_index :: "string \<Rightarrow> jsval \<Rightarrow> props \<Rightarrow> props" where
  "insert_index k v [] = [(k, v)]"
| "insert_index k v ((k', v') # ps) =
     (if array_index k' \<and> dec_value k' < dec_value k
      then (k', v') # insert_index k v ps
      else (k, v) # (k', v') # ps)"

fun replace_prop :: "string \<Rightarrow> jsval \<Rightarrow> props \<Rightarrow> props" where
  "replace_prop k v [] = []"
| "replace_prop k v ((k', v') # ps) =
     (if k' = k then (k, v) # ps else (k', v') # replace_prop k v ps)"

text \<open>
  \<open>obj[k] = v\<close> on a plain object: an own property keeps its place, a new one is
  created at the place its key has in the enumeration order.
\<close>

definition obj_set :: "props \<Rightarrow> string \<Rightarrow> jsval \<Rightarrow> props" where
  "obj_set ps k v =
     (if obj_get ps k \<noteq> None then replace_prop k v ps
      else if array_index k then insert_index k v ps
      else ps @ [(k, v)])"

text \<open>An object literal \<open>{...o, k1: v1, k2: v2}\<close> defines the listed properties in turn.\<close>

definition obj_sets :: "props \<Rightarrow> props \<Rightarrow> props" where
  "obj_sets ps upd = foldl (\<lambda>acc (k, v). obj_set acc k v) ps upd"

fun dec_string :: "nat \<Rightarrow> string" where
  "dec_string n =
     (if n < 10 then [char_of (48 + n)]
      else dec_string (n div 10) @ [char_of (48 + n mod 10)])"

declare dec_string.simps [simp del]

definition indexed :: "jsval list \<Rightarrow> props" where
  "indexed xs = zip (map dec_string [0..<length xs]) xs"

definition chars_of :: "string \<Rightarrow> jsval list" where
  "chars_of s = map (\<lambda>c. JStr [c]) s"

text \<open>
  The own enumerable properties that an object spread \<open>{...v}\<close> copies: those of an
  object, the elements of an array under their indices, the characters of a string under
  theirs, and nothing for a number, a boolean or \<open>null\<close>.
\<close>

fun own_entries :: "jsval \<Rightarrow> props" where
  "own_entries (JObj ps) = ps"
| "own_entries (JArr xs) = indexed xs"
| "own_entries (JStr s) = indexed (chars_of s)"
| "own_entries v = []"

text \<open>
  The elements an array spread \<open>[...v]\<close> iterates: an array and a string are iterable,
  nothing else is, and the spread of anything else throws.
\<close>

fun iterate :: "jsval \<Rightarrow> error + jsval list" where
  "iterate (JArr xs) = Inr xs"
| "iterate (JStr s) = Inr (chars_of s)"
| "iterate v = Inl TypeError"

section \<open>The merge of two configuration documents\<close>

text \<open>
  \<open>new Set\<close> compares its elements with SameValueZero: primitives by value, arrays and
  objects by reference. The documents here are trees without sharing (the existing
  configuration is parsed from the file, the base is built afresh), so two array or
  object elements are never the same reference.
\<close>

fun same_value_zero :: "jsval \<Rightarrow> jsval \<Rightarrow> bool" where
  "same_value_zero JNull JNull = True"
| "same_value_zero (JBool a) (JBool b) = (a = b)"
| "same_value_zero (JNum a) (JNum b) = (a = b)"
| "same_value_zero (JStr a) (JStr b) = (a = b)"
| "same_value_zero a b = False"

text \<open>\<open>[...new Set(xs)]\<close>: the first occurrence of every element, in order.\<close>

fun dedup_from :: "jsval list \<Rightarrow> jsval list \<Rightarrow> jsval list" where
  "dedup_from seen [] = []"
| "dedup_from seen (x # xs) =
     (if list_ex (\<lambda>y. same_value_zero y x) seen then dedup_from seen xs
      else x # dedup_from (seen @ [x]) xs)"

definition set_dedup :: "jsval list \<Rightarrow> jsval list" where
  "set_dedup xs = dedup_from [] xs"

text \<open>
  The names every plain object inherits from \<open>Object.prototype\<close>. A read \<open>merged[key]\<close>
  of such a name that is not an own property yields a built-in function (or the prototype
  object itself): truthy, not iterable, and without own enumerable properties. The key
  \<open>__proto__\<close> in a document is outside this model (assigning it changes the prototype).
\<close>

definition prototype_names :: "string list" where
  "prototype_names =
     [''constructor'', ''__defineGetter__'', ''__defineSetter__'', ''hasOwnProperty'',
      ''__lookupGetter__'', ''__lookupSetter__'', ''isPrototypeOf'', ''propertyIsEnumerable'',
      ''toString'', ''valueOf'', ''__proto__'', ''toLocaleString'']"

definition inherited :: "string \<Rightarrow> bool" where
  "inherited k = (k \<in> set prototype_names)"

text \<open>\<open>[...(merged[key] || [])]\<close>\<close>

definition array_operand :: "props \<Rightarrow> string \<Rightarrow> error + jsval list" where
  "array_operand merged k =
     (case obj_get merged k of
        Some v \<Rightarrow> if truthy v then iterate v else Inr []
      | None \<Rightarrow> if inherited k then Inl TypeError else Inr [])"

text \<open>\<open>{ ...(merged[key] || {}) }\<close>, the copy the recursive call starts from.\<close>

definition object_operand :: "props \<Rightarrow> string \<Rightarrow> props" where
  "object_operand merged k =
     (case obj_get merged k of
        Some v \<Rightarrow> if truthy v then own_entries v else []
      | None \<Rightarrow> [])"

text \<open>
  \<open>mergeConfigs(baseConfig, existingConfig)\<close>. \<open>merge_loop merged entries\<close> is the
  \<open>for\<close> loop over \<open>Object.entries(existingConfig)\<close> with \<open>merged\<close> as it stands; the
  branch is chosen by the shape of the incoming value alone.
\<close>

function merge_loop :: "props \<Rightarrow> props \<Rightarrow> error + props" where
  "merge_loop merged [] = Inr merged"
| "merge_loop merged ((k, JArr xs) # rest) =
     (case array_operand merged k of
        Inl e \<Rightarrow> Inl e
      | Inr ys \<Rightarrow> merge_loop (obj_set merged k (JArr (set_dedup (ys @ xs)))) rest)"
| "merge_loop merged ((k, JObj sub) # rest) =
     (case merge_loop (object_operand merged k) sub of
        Inl e \<Rightarrow> Inl e
      | Inr r \<Rightarrow> merge_loop (obj_set merged k (JObj r)) rest)"
| "merge_loop merged ((k, JNull) # rest) = merge_loop (obj_set merged k JNull) rest"
| "merge_loop merged ((k, JBool b) # rest) = merge_loop (obj_set merged k (JBool b)) rest"
| "merge_loop merged ((k, JNum n) # rest) = merge_loop (obj_set merged k (JNum n)) rest"
| "merge_loop merged ((k, JStr s) # rest) = merge_loop (obj_set merged k (JStr s)) rest"
  by pat_completeness auto
termination
  by (relation "measure (\<lambda>(merged, entries). size_list (size_prod (\<lambda>k. 0) size) entries)") auto

definition mergeConfigs :: "jsval \<Rightarrow> props \<Rightarrow> error + props" where
  "mergeConfigs baseConfig existingConfig = merge_loop (own_entries baseConfig) existingConfig"

section \<open>Strings\<close>

fun starts_with :: "string \<Rightarrow> string \<Rightarrow> bool" where
  "starts_with s [] = True"
| "starts_with [] (c # cs) = False"
| "starts_with (x # xs) (c # cs) = (x = c \<and> starts_with xs cs)"

text \<open>\<open>s.includes(sub)\<close>\<close>

fun str_includes :: "string \<Rightarrow> string \<Rightarrow> bool" where
  "str_includes [] sub = (sub = [])"
| "str_includes (x # xs) sub = (starts_with (x # xs) sub \<or> str_includes xs sub)"

text \<open>\<open>s.endsWith(suffix)\<close>\<close>

definition ends_with :: "string \<Rightarrow> string \<Rightarrow> bool" where
  "ends_with s suffix = starts_with (rev s) (rev suffix)"

text \<open>\<open>xs.join('\n')\<close>\<close>

fun join_lines :: "string list \<Rightarrow> string" where
  "join_lines [] = []"
| "join_lines [x] = x"
| "join_lines (x # y # ys) = x @ [CHR 0x0A] @ join_lines (y # ys)"

section \<open>The dependency catalog\<close>

definition PROJECT_TYPES :: "string list" where
  "PROJECT_TYPES = [''nextjs'', ''react'', ''nodejs'', ''angular'', ''vue'', ''svelte'']"

definition commonDependencies :: "string list" where
  "commonDependencies =
     [''eslint@^8.56.0'',
      ''prettier@^3.2.5'',
      ''eslint-config-prettier@^9.1.0'',
      ''eslint-plugin-prettier@^5.1.3'']"

definition typeSpecificDependencies :: "(string \<times> string list) list" where
  "typeSpecificDependencies =
     [(''nextjs'', [''eslint-config-next@latest'']),
      (''react'',
         [''eslint-plugin-react@^7.34.1'',
          ''eslint-plugin-react-hooks@^4.6.0'',
          ''eslint-plugin-jsx-a11y@^6.8.0'',
          ''eslint-config-react-app@^7.0.1'',
          ''eslint-plugin-import@^2.29.1'']),
      (''nodejs'', [''eslint-plugin-node@^11.1.0'']),
      (''angular'',
         [''@angular-eslint/eslint-plugin@^17.3.0'',
          ''@angular-eslint/eslint-plugin-template@^17.3.0'']),
      (''vue'', [''eslint-plugin-vue@^9.23.0'']),
      (''svelte'',
         [''eslint-plugin-svelte@latest'',
          ''svelte-eslint-parser@latest'',
          ''prettier-plugin-svelte@latest'',
          ''eslint-config-prettier@latest'',
          ''svelte-check@latest''])]"

definition typescriptDependencies :: "string list" where
  "typescriptDependencies =
     [''@typescript-eslint/parser@^7.1.0'',
      ''@typescript-eslint/eslint-plugin@^7.1.0'']"

definition huskyDependencies :: "string list" where
  "huskyDependencies = [''husky@^9.0.11'', ''lint-staged@^15.2.2'']"

text \<open>
  \<open>getProjectDependencies(projectType, useTypeScript, usePrettier)\<close>. A project type
  without an entry in the table yields \<open>undefined\<close> (or an inherited built-in), and the
  array spread of it throws.
\<close>

definition getProjectDependencies :: "string \<Rightarrow> bool \<Rightarrow> bool \<Rightarrow> error + string list" where
  "getProjectDependencies projectType useTypeScript usePrettier =
     (case map_of typeSpecificDependencies projectType of
        None \<Rightarrow> Inl TypeError
      | Some specific \<Rightarrow>
          (let deps0 = commonDependencies @ specific;
               deps1 = (if useTypeScript \<and> projectType \<noteq> ''nextjs''
                        then deps0 @ typescriptDependencies else deps0);
               deps2 = (if \<not> usePrettier
                        then filter (\<lambda>dep. \<not> str_includes dep ''prettier'') deps1 else deps1)
           in Inr deps2))"

text \<open>
  A specifier is written \<open>name@version\<close>; the name is what stands before the last \<open>@\<close>
  (a scoped name begins with one of its own).
\<close>

definition specifier_name :: "string \<Rightarrow> string" where
  "specifier_name dep =
     (if CHR ''@'' \<in> set dep then rev (tl (dropWhile (\<lambda>c. c \<noteq> CHR ''@'') (rev dep))) else dep)"

section \<open>The ignore lists\<close>

definition commonIgnores :: "string list" where
  "commonIgnores = [''node_modules'', ''dist'', ''build'', ''coverage'', ''*.min.js'', ''*.d.ts'']"

definition typeSpecificIgnores :: "(string \<times> string list) list" where
  "typeSpecificIgnores =
     [(''nextjs'', [''next.config.js'', ''.next'']),
      (''react'', [''react-app-env.d.ts'']),
      (''nodejs'', []),
      (''svelte'',
         [''rollup.config.js'', ''svelte.config.js'', ''.svelte-kit'', ''package'', ''build'',
          ''.env'', ''.env.*'', ''!.env.example'', ''vite.config.js''])]"

text \<open>The array \<open>ignores\<close> of \<open>createEslintIgnore\<close>.\<close>

definition eslintIgnores :: "string \<Rightarrow> error + string list" where
  "eslintIgnores projectType =
     (case map_of typeSpecificIgnores projectType of
        Some specific \<Rightarrow> Inr (commonIgnores @ specific)
      | None \<Rightarrow> if inherited projectType then Inl TypeError else Inr commonIgnores)"

text \<open>\<open>createEslintIgnore(projectType)\<close>: the content written to \<open>.eslintignore\<close>.\<close>

definition createEslintIgnore :: "string \<Rightarrow> error + string" where
  "createEslintIgnore projectType =
     (case eslintIgnores projectType of Inl e \<Rightarrow> Inl e | Inr ignores \<Rightarrow> Inr (join_lines ignores))"

definition prettierIgnores :: "string list" where
  "prettierIgnores =
     [''node_modules'', ''dist'', ''build'', ''coverage'', ''*.min.js'', ''*.d.ts'', ''.next'',
      ''package-lock.json'', ''yarn.lock'']"

definition createPrettierIgnore :: "string" where
  "createPrettierIgnore = join_lines prettierIgnores"

section \<open>The lint configuration generator\<close>

definition and_then :: "error + 'a \<Rightarrow> ('a \<Rightarrow> error + 'b) \<Rightarrow> error + 'b" where
  "and_then r f = (case r of Inl e \<Rightarrow> Inl e | Inr x \<Rightarrow> f x)"

definition strs :: "string list \<Rightarrow> jsval" where
  "strs xs = JArr (map JStr xs)"

text \<open>\<open>[...(v || [])]\<close> for a property read \<open>v\<close> (\<open>None\<close> is \<open>undefined\<close>).\<close>

definition spread_or_empty :: "jsval option \<Rightarrow> error + jsval list" where
  "spread_or_empty r =
     (case r of None \<Rightarrow> Inr [] | Some v \<Rightarrow> if truthy v then iterate v else Inr [])"

text \<open>\<open>config[key] = [...(config[key] || []), ...items]\<close>\<close>

definition append_to :: "props \<Rightarrow> string \<Rightarrow> string list \<Rightarrow> error + props" where
  "append_to config k items =
     and_then (spread_or_empty (obj_get config k))
       (\<lambda>xs. Inr (obj_set config k (JArr (xs @ map JStr items))))"

text \<open>\<open>{...v}\<close> for a property read \<open>v\<close>: the spread of \<open>undefined\<close> copies nothing.\<close>

definition spread_props :: "jsval option \<Rightarrow> props" where
  "spread_props r = (case r of None \<Rightarrow> [] | Some v \<Rightarrow> own_entries v)"

text \<open>\<open>config[key] = {...config[key], k1: v1, ...}\<close>\<close>

definition extend_object :: "props \<Rightarrow> string \<Rightarrow> props \<Rightarrow> props" where
  "extend_object config k upd = obj_set config k (JObj (obj_sets (spread_props (obj_get config k)) upd))"

text \<open>
  \<open>config.parserOptions.ecmaFeatures = v\<close>. The read of a property of \<open>undefined\<close> or
  \<open>null\<close> throws. The script runs in sloppy mode, where the assignment to a property of a
  primitive is ignored; on an array it creates a named property that is neither an element
  nor written by \<open>JSON.stringify\<close>, so the document stays as it is.
\<close>

definition set_nested :: "props \<Rightarrow> string \<Rightarrow> string \<Rightarrow> jsval \<Rightarrow> error + props" where
  "set_nested config k1 k2 v =
     (case obj_get config k1 of
        None \<Rightarrow> Inl TypeError
      | Some JNull \<Rightarrow> Inl TypeError
      | Some (JObj ps) \<Rightarrow> Inr (obj_set config k1 (JObj (obj_set ps k2 v)))
      | Some other \<Rightarrow> Inr config)"

definition configureReact :: "props \<Rightarrow> bool \<Rightarrow> error + props" where
  "configureReact config useTypeScript =
     and_then (append_to config ''extends''
        [''plugin:react/recommended'',
         ''plugin:react/jsx-runtime'',
         ''plugin:react-hooks/recommended'',
         ''plugin:jsx-a11y/recommended'',
         ''plugin:import/errors'',
         ''plugin:import/warnings''])
     (\<lambda>c1. and_then (append_to c1 ''plugins'' [''react'', ''react-hooks'', ''jsx-a11y'', ''import''])
     (\<lambda>c2.
        let c3 = extend_object c2 ''settings''
                   [(''react'', JObj [(''version'', JStr ''detect'')]),
                    (''import/resolver'',
                       JObj [(''node'', JObj [(''extensions'', strs [''.js'', ''.jsx'', ''.ts'', ''.tsx''])])])];
            c4 = extend_object c3 ''rules''
                   [(''react/prop-types'', JStr (if useTypeScript then ''off'' else ''error'')),
                    (''react/jsx-uses-react'', JStr ''error''),
                    (''react/jsx-uses-vars'', JStr ''error''),
                    (''react-hooks/rules-of-hooks'', JStr ''error''),
                    (''react-hooks/exhaustive-deps'', JStr ''warn''),
                    (''import/no-unresolved'', JStr ''error''),
                    (''import/named'', JStr ''error''),
                    (''import/default'', JStr ''error''),
                    (''import/namespace'', JStr ''error'')]
        in if useTypeScript
           then set_nested c4 ''parserOptions'' ''ecmaFeatures'' (JObj [(''jsx'', JBool True)])
           else Inr c4))"

definition configureNextjs :: "props \<Rightarrow> error + props" where
  "configureNextjs config = append_to config ''extends'' [''next/core-web-vitals'']"

definition configureNodejs :: "props \<Rightarrow> error + props" where
  "configureNodejs config =
     and_then (append_to config ''extends'' [''plugin:node/recommended''])
     (\<lambda>c1. and_then (append_to c1 ''plugins'' [''node''])
     (\<lambda>c2. Inr (extend_object c2 ''rules''
        [(''node/exports-style'', strs [''error'', ''module.exports'']),
         (''node/file-extension-in-import'', strs [''error'', ''always'']),
         (''node/prefer-global/buffer'', strs [''error'', ''always'']),
         (''node/prefer-global/console'', strs [''error'', ''always'']),
         (''node/prefer-global/process'', strs [''error'', ''always'']),
         (''node/prefer-global/url-search-params'', strs [''error'', ''always'']),
         (''node/prefer-global/url'', strs [''error'', ''always'']),
         (''node/prefer-promises/dns'', JStr ''error''),
         (''node/prefer-promises/fs'', JStr ''error'')])))"

text \<open>
  \<open>configureSvelte(config, useTypeScript)\<close>: \<open>extends\<close>, \<open>parser\<close>, \<open>plugins\<close> and
  \<open>overrides\<close> are assigned outright; the two \<open>push\<close> calls extend the arrays just
  assigned.
\<close>

definition configureSvelte :: "props \<Rightarrow> bool \<Rightarrow> error + props" where
  "configureSvelte config useTypeScript =
     (let c1 = obj_set config ''extends'' (strs [''eslint:recommended'', ''plugin:svelte/recommended'']);
          c2 = obj_set c1 ''parser'' (JStr ''svelte-eslint-parser'');
          c3 = obj_set c2 ''plugins'' (strs [''svelte'']);
          c4 = obj_set c3 ''overrides''
                 (JArr [JObj [(''files'', strs [''*.svelte'']),
                              (''parser'', JStr ''svelte-eslint-parser''),
                              (''parserOptions'',
                                 JObj [(''parser'',
                                    JStr (if useTypeScript then ''@typescript-eslint/parser''
                                          else ''espree''))])]]);
          c5 = (if useTypeScript
                then (let d1 = obj_set c4 ''extends''
                                 (strs [''eslint:recommended'', ''plugin:svelte/recommended'',
                                        ''plugin:@typescript-eslint/recommended'']);
                          d2 = obj_set d1 ''plugins'' (strs [''svelte'', ''@typescript-eslint''])
                      in extend_object d2 ''parserOptions''
                           [(''project'', JStr ''./tsconfig.json''),
                            (''extraFileExtensions'', strs [''.svelte''])])
                else c4)
      in Inr (extend_object c5 ''rules''
           [(''svelte/no-unused-vars'', JStr ''error''),
            (''no-unused-vars'', JStr ''off''),
            (''@typescript-eslint/no-unused-vars'',
               (if useTypeScript
                then JArr [JStr ''error'',
                           JObj [(''varsIgnorePattern'', JStr ''^_''),
                                 (''argsIgnorePattern'', JStr ''^_'')]]
                else JStr ''off''))]))"

definition configureVue :: "props \<Rightarrow> error + props" where
  "configureVue config =
     and_then (append_to config ''extends'' [''plugin:vue/vue3-recommended''])
     (\<lambda>c1. and_then (append_to c1 ''plugins'' [''vue''])
     (\<lambda>c2. Inr (obj_set c2 ''parser'' (JStr ''vue-eslint-parser''))))"

definition configureAngular :: "props \<Rightarrow> error + props" where
  "configureAngular config =
     and_then (append_to config ''extends''
        [''plugin:@angular-eslint/recommended'',
         ''plugin:@angular-eslint/template/process-inline-templates''])
     (\<lambda>c1. append_to c1 ''plugins'' [''@angular-eslint''])"

definition configureTypeScript :: "props \<Rightarrow> error + props" where
  "configureTypeScript config =
     (let c1 = obj_set config ''parser'' (JStr ''@typescript-eslint/parser'')
      in and_then (append_to c1 ''plugins'' [''@typescript-eslint''])
         (\<lambda>c2. and_then (append_to c2 ''extends'' [''plugin:@typescript-eslint/recommended''])
         (\<lambda>c3. Inr (extend_object c3 ''rules''
            [(''@typescript-eslint/explicit-function-return-type'', JStr ''off''),
             (''@typescript-eslint/explicit-module-boundary-types'', JStr ''off''),
             (''@typescript-eslint/no-explicit-any'', JStr ''warn'')]))))"

definition configurePrettier :: "props \<Rightarrow> error + props" where
  "configurePrettier config =
     and_then (append_to config ''extends'' [''plugin:prettier/recommended''])
     (\<lambda>c1. Inr (extend_object c1 ''rules'' [(''prettier/prettier'', JStr ''error'')]))"

text \<open>The object literal \<open>generateConfig\<close> starts from, before the merge.\<close>

definition baseRules :: "bool \<Rightarrow> props" where
  "baseRules useStrict =
     [(''no-console'', JStr (if useStrict then ''error'' else ''warn'')),
      (''no-debugger'', JStr ''error''),
      (''no-unused-vars'', JStr ''error'')]"

definition baseConfig :: "string \<Rightarrow> bool \<Rightarrow> props \<Rightarrow> props" where
  "baseConfig projectType useStrict packageJson =
     [(''root'', JBool True),
      (''env'', JObj [(''browser'', JBool True), (''es2022'', JBool True), (''node'', JBool True)]),
      (''parserOptions'',
         JObj [(''ecmaVersion'', JStr ''latest''),
               (''sourceType'',
                  JStr (if obj_get packageJson ''type'' = Some (JStr ''module'') then ''module''
                        else if projectType = ''react'' \<or> projectType = ''nextjs''
                                \<or> projectType = ''svelte''
                        then ''module'' else ''script''))]),
      (''rules'', JObj (baseRules useStrict))]"

text \<open>
  The \<open>switch\<close> on the project type. The svelte case calls \<open>configureSvelte(eslintConfig)\<close>
  with one argument: its parameter \<open>useTypeScript\<close> is \<open>undefined\<close>, which is falsy.
\<close>

definition configureProject :: "string \<Rightarrow> bool \<Rightarrow> props \<Rightarrow> error + props" where
  "configureProject projectType useTypeScript config =
     (if projectType = ''react'' then configureReact config useTypeScript
      else if projectType = ''nextjs'' then configureNextjs config
      else if projectType = ''nodejs'' then configureNodejs config
      else if projectType = ''svelte'' then configureSvelte config False
      else if projectType = ''vue'' then configureVue config
      else if projectType = ''angular'' then configureAngular config
      else Inr config)"

definition generateConfig ::
  "string \<Rightarrow> bool \<Rightarrow> bool \<Rightarrow> bool \<Rightarrow> props \<Rightarrow> props \<Rightarrow> error + props" where
  "generateConfig projectType useTypeScript useStrict usePrettier packageJson existingConfig =
     and_then (mergeConfigs (JObj (baseConfig projectType useStrict packageJson)) existingConfig)
     (\<lambda>c0. and_then (configureProject projectType useTypeScript c0)
     (\<lambda>c1. and_then (if useTypeScript \<and> projectType \<noteq> ''nextjs''
                      then configureTypeScript c1 else Inr c1)
     (\<lambda>c2. if usePrettier then configurePrettier c2 else Inr c2)))"

section \<open>The steps of \<open>setupProject\<close>\<close>

subsection \<open>Language detection for svelte\<close>

text \<open>
  \<open>isSvelteUsingTypeScript()\<close> over the listing of the working directory; \<open>None\<close> is a
  \<open>readdir\<close> that failed, which the function answers with \<open>false\<close>.
\<close>

definition isSvelteUsingTypeScript :: "string list option \<Rightarrow> bool" where
  "isSvelteUsingTypeScript listing =
     (case listing of
        None \<Rightarrow> False
      | Some files \<Rightarrow>
          list_ex (\<lambda>file. file = ''tsconfig.json'' \<or> ends_with file ''.ts''
                            \<or> ends_with file ''.svelte'') files)"

text \<open>The document \<open>createSvelteTsConfig()\<close> writes to \<open>tsconfig.json\<close>.\<close>

definition svelteTsConfig :: "props" where
  "svelteTsConfig =
     [(''extends'', JStr ''@tsconfig/svelte/tsconfig.json''),
      (''compilerOptions'',
         JObj [(''moduleResolution'', JStr ''node''),
               (''target'', JStr ''esnext''),
               (''module'', JStr ''esnext''),
               (''importsNotUsedAsValues'', JStr ''error''),
               (''isolatedModules'', JBool True),
               (''sourceMap'', JBool True),
               (''esModuleInterop'', JBool True),
               (''skipLibCheck'', JBool True),
               (''forceConsistentCasingInFileNames'', JBool True),
               (''allowJs'', JBool True),
               (''checkJs'', JBool True),
               (''baseUrl'', JStr ''.''),
               (''paths'',
                  JObj [(''$lib'', strs [''src/lib'']), (''$lib/*'', strs [''src/lib/*''])])]),
      (''include'', strs [''src/**/*.d.ts'', ''src/**/*.ts'', ''src/**/*.js'', ''src/**/*.svelte'']),
      (''exclude'', strs [''node_modules/*'', ''__sapper__/*'', ''public/*''])]"

text \<open>
  The two \<open>if\<close> statements of \<open>setupProject\<close> after the options are read: the value of
  \<open>useTypeScript\<close> from there on, and the files written by them (name and document).
\<close>

definition detectLanguage ::
  "string \<Rightarrow> bool \<Rightarrow> string list option \<Rightarrow> bool \<times> (string \<times> props) list" where
  "detectLanguage projectType prompted listing =
     (let useTypeScript = (if projectType = ''svelte'' then isSvelteUsingTypeScript listing
                           else prompted);
          written = (if projectType = ''svelte'' \<and> useTypeScript
                     then [(''tsconfig.json'', svelteTsConfig)] else [])
      in (useTypeScript, written))"

subsection \<open>The existing configuration\<close>

text \<open>
  \<open>found\<close> is the parsed document of the first configuration file that exists, if any;
  it is merged only when the user does not ask to overwrite it.
\<close>

definition chooseExistingConfig :: "props option \<Rightarrow> bool \<Rightarrow> props" where
  "chooseExistingConfig found overwrite =
     (case found of None \<Rightarrow> [] | Some doc \<Rightarrow> if overwrite then [] else doc)"

subsection \<open>The project manifest\<close>

text \<open>\<open>packageJson.scripts?.[name]\<close>: only an object holds a script of that name.\<close>

definition script_of :: "props \<Rightarrow> string \<Rightarrow> jsval option" where
  "script_of packageJson name =
     (case obj_get packageJson ''scripts'' of
        Some (JObj ps) \<Rightarrow> obj_get ps name
      | _ \<Rightarrow> None)"

text \<open>\<open>v || d\<close> for a property read \<open>v\<close>\<close>

definition or_default :: "jsval option \<Rightarrow> jsval \<Rightarrow> jsval" where
  "or_default r d = (case r of None \<Rightarrow> d | Some v \<Rightarrow> if truthy v then v else d)"

text \<open>
  The \<open>scripts\<close> object of \<open>packageJsonUpdates\<close>: the literal it is created with, the
  replacement for svelte, and the assignment of \<open>format\<close>.
\<close>

definition updatedScripts :: "string \<Rightarrow> bool \<Rightarrow> props \<Rightarrow> props" where
  "updatedScripts projectType usePrettier packageJson =
     (let scripts0 =
            obj_sets (object_operand packageJson ''scripts'')
              [(''lint'', or_default (script_of packageJson ''lint'') (JStr ''eslint .'')),
               (''lint:fix'', or_default (script_of packageJson ''lint:fix'') (JStr ''eslint . --fix''))];
          scripts1 =
            (if projectType = ''svelte''
             then obj_sets scripts0
                    [(''lint'', JStr ''eslint --ignore-path .gitignore .''),
                     (''lint:fix'', JStr ''eslint --ignore-path .gitignore --fix .''),
                     (''check'', JStr ''svelte-check --tsconfig ./tsconfig.json''),
                     (''format'', JStr ''prettier --write --plugin prettier-plugin-svelte .'')]
             else scripts0)
      in if usePrettier
         then obj_set scripts1 ''format''
                (or_default (script_of packageJson ''format'') (JStr ''prettier --write .''))
         else scripts1)"

text \<open>The object \<open>packageJsonUpdates\<close> when it is handed to \<open>updatePackageJson\<close>.\<close>

definition packageJsonUpdates :: "string \<Rightarrow> bool \<Rightarrow> bool \<Rightarrow> props \<Rightarrow> props" where
  "packageJsonUpdates projectType usePrettier useHusky packageJson =
     (let updates = [(''scripts'', JObj (updatedScripts projectType usePrettier packageJson))]
      in if useHusky
         then obj_set updates ''lint-staged''
                (JObj [(''*.{js,jsx,ts,tsx,svelte}'', strs [''eslint --fix'']),
                       (''*.{json,md,css,html,svelte}'', strs [''prettier --write''])])
         else updates)"

text \<open>
  \<open>updatePackageJson(updates)\<close>: \<open>{ ...packageJson, ...updates }\<close> over the manifest as
  it is read at that moment.
\<close>

definition updatePackageJson :: "props \<Rightarrow> props \<Rightarrow> props" where
  "updatePackageJson packageJson updates = obj_sets packageJson updates"

section \<open>Configuration documents\<close>

text \<open>
  A configuration document is an object whose values are scalars, sequences of scalars and
  nested documents. As a property list it has no key twice, at any level; the key
  \<open>__proto__\<close> is excluded.
\<close>

fun is_scalar :: "jsval \<Rightarrow> bool" where
  "is_scalar (JArr xs) = False"
| "is_scalar (JObj ps) = False"
| "is_scalar v = True"

definition plain_keys :: "props \<Rightarrow> bool" where
  "plain_keys ps = (distinct (map fst ps) \<and> ''__proto__'' \<notin> set (map fst ps))"

function (sequential) nested_ok :: "props \<Rightarrow> bool" where
  "nested_ok [] = True"
| "nested_ok ((k, JArr xs) # rest) = (list_all is_scalar xs \<and> nested_ok rest)"
| "nested_ok ((k, JObj sub) # rest) = (plain_keys sub \<and> nested_ok sub \<and> nested_ok rest)"
| "nested_ok ((k, v) # rest) = nested_ok rest"
  by pat_completeness auto
termination
  by (relation "measure (size_list (size_prod (\<lambda>k. 0) size))") auto

definition document :: "props \<Rightarrow> bool" where
  "document ps = (plain_keys ps \<and> nested_ok ps)"

text \<open>The document with every sequence reduced to the first occurrences of its elements.\<close>

function (sequential) dedup_doc :: "props \<Rightarrow> props" where
  "dedup_doc [] = []"
| "dedup_doc ((k, JArr xs) # rest) = (k, JArr (set_dedup xs)) # dedup_doc rest"
| "dedup_doc ((k, JObj sub) # rest) = (k, JObj (dedup_doc sub)) # dedup_doc rest"
| "dedup_doc ((k, v) # rest) = (k, v) # dedup_doc rest"
  by pat_completeness auto
termination
  by (relation "measure (size_list (size_prod (\<lambda>k. 0) size))") auto

text \<open>No sequence of the document holds an element twice.\<close>

function (sequential) distinct_seqs :: "props \<Rightarrow> bool" where
  "distinct_seqs [] = True"
| "distinct_seqs ((k, JArr xs) # rest) = (distinct xs \<and> distinct_seqs rest)"
| "distinct_seqs ((k, JObj sub) # rest) = (distinct_seqs sub \<and> distinct_seqs rest)"
| "distinct_seqs ((k, v) # rest) = distinct_seqs rest"
  by pat_completeness auto
termination
  by (relation "measure (size_list (size_prod (\<lambda>k. 0) size))") auto

text \<open>
  The shapes of base and incoming agree: where the incoming document holds a sequence, the
  base holds a sequence or nothing; where it holds a nested document, the base holds a
  nested document of agreeing shapes or nothing.
\<close>

function shapes_agree :: "props \<Rightarrow> props \<Rightarrow> bool" where
  "shapes_agree base [] = True"
| "shapes_agree base ((k, JArr ys) # rest) =
     ((case obj_get base k of
         None \<Rightarrow> \<not> inherited k
       | Some (JArr xs) \<Rightarrow> True
       | Some other \<Rightarrow> False)
      \<and> shapes_agree base rest)"
| "shapes_agree base ((k, JObj sub) # rest) =
     ((case obj_get base k of
         None \<Rightarrow> shapes_agree [] sub
       | Some (JObj a) \<Rightarrow> shapes_agree a sub
       | Some other \<Rightarrow> False)
      \<and> shapes_agree base rest)"
| "shapes_agree base ((k, JNull) # rest) = shapes_agree base rest"
| "shapes_agree base ((k, JBool b) # rest) = shapes_agree base rest"
| "shapes_agree base ((k, JNum n) # rest) = shapes_agree base rest"
| "shapes_agree base ((k, JStr s) # rest) = shapes_agree base rest"
  by pat_completeness auto
termination
  by (relation "measure (\<lambda>(base, incoming). size_list (size_prod (\<lambda>k. 0) size) incoming)") auto

text \<open>The sequence a document holds at a key; empty when it holds none there.\<close>

definition sequence_at :: "props \<Rightarrow> string \<Rightarrow> jsval list" where
  "sequence_at doc k = (case obj_get doc k of Some (JArr xs) \<Rightarrow> xs | _ \<Rightarrow> [])"

section \<open>Facts about objects and the error monad\<close>

lemma and_then_weak_cong: "r = r' \<Longrightarrow> and_then r f = and_then r' f"
  by simp

lemma and_then_Inr: "and_then (Inr x) f = f x"
  by (simp add: and_then_def)

lemma and_then_Inl: "and_then (Inl e) f = Inl e"
  by (simp add: and_then_def)

lemma and_then_eq_Inr: "and_then r f = Inr y \<longleftrightarrow> (\<exists>x. r = Inr x \<and> f x = Inr y)"
  by (cases r) (simp_all add: and_then_def)

lemma obj_get_Nil: "obj_get [] k = None"
  by (simp add: obj_get_def)

lemma obj_get_Cons: "obj_get ((k', v) # ps) k = (if k = k' then Some v else obj_get ps k)"
  by (simp add: obj_get_def)

lemma obj_get_replace_prop:
  "obj_get (replace_prop k v ps) k' = (if k' = k \<and> obj_get ps k \<noteq> None then Some v else obj_get ps k')"
  by (induction ps) (auto simp: obj_get_def)

lemma obj_get_insert_index:
  "obj_get ps k = None \<Longrightarrow>
   obj_get (insert_index k v ps) k' = (if k' = k then Some v else obj_get ps k')"
  by (induction ps) (auto simp: obj_get_def split: if_splits)

lemma obj_get_snoc:
  "obj_get ps k = None \<Longrightarrow>
   obj_get (ps @ [(k, v)]) k' = (if k' = k then Some v else obj_get ps k')"
  by (auto simp: obj_get_def map_add_def split: option.splits)

lemma obj_get_obj_set: "obj_get (obj_set ps k v) k' = (if k' = k then Some v else obj_get ps k')"
  unfolding obj_set_def
  by (simp add: obj_get_replace_prop obj_get_insert_index obj_get_snoc)

lemma obj_set_Nil: "obj_set [] k v = [(k, v)]"
  by (simp add: obj_set_def obj_get_def)

lemma replace_prop_absent: "obj_get ps k = None \<Longrightarrow> replace_prop k v ps = ps"
  by (induction ps) (auto simp: obj_get_def split: if_splits)

lemma obj_set_Cons:
  "\<not> array_index k \<Longrightarrow>
   obj_set ((k', v') # ps) k v = (if k' = k then (k, v) # ps else (k', v') # obj_set ps k v)"
  by (auto simp: obj_set_def obj_get_def)

lemma obj_sets_Nil: "obj_sets ps [] = ps"
  by (simp add: obj_sets_def)

lemma obj_sets_Cons: "obj_sets ps ((k, v) # upd) = obj_sets (obj_set ps k v) upd"
  by (simp add: obj_sets_def)

lemma obj_get_obj_sets:
  "obj_get (obj_sets ps upd) k = (case map_of (rev upd) k of Some v \<Rightarrow> Some v | None \<Rightarrow> obj_get ps k)"
proof (induction upd arbitrary: ps)
  case Nil
  show ?case by (simp add: obj_sets_Nil)
next
  case (Cons p upd)
  obtain k' v' where p: "p = (k', v')" by (cases p)
  show ?case
    by (simp add: p obj_sets_Cons Cons.IH obj_get_obj_set map_add_def split: option.splits)
qed

lemma not_index_letter:
  "\<not> is_digit c \<Longrightarrow> \<not> array_index (c # cs)"
  by (simp add: array_index_def)

lemmas key_eval = array_index_def is_digit_def

lemmas step_eval = and_then_Inr and_then_Inl append_to_def spread_or_empty_def extend_object_def
  spread_props_def strs_def obj_sets_Nil obj_sets_Cons obj_set_Nil obj_set_Cons obj_get_Nil obj_get_Cons

lemma mergeConfigs_empty: "mergeConfigs (JObj ps) [] = Inr ps"
  by (simp add: mergeConfigs_def)

lemmas merge_eval = mergeConfigs_def array_operand_def object_operand_def inherited_def
  prototype_names_def set_dedup_def chars_of_def

section \<open>The base rules and the strictness flag\<close>

text \<open>
  C3 (as amended). In the rules map of the base configuration, built before the merge and
  before any rule of the project type is applied, \<open>no-console\<close> is \<open>error\<close> when
  \<open>useStrict\<close> is true and \<open>warn\<close> when it is false, while \<open>no-debugger\<close> and
  \<open>no-unused-vars\<close> are \<open>error\<close> whatever \<open>useStrict\<close> is.
\<close>

theorem C3_base_rules:
  "obj_get (baseConfig projectType useStrict packageJson) ''rules'' =
     Some (JObj [(''no-console'', JStr (if useStrict then ''error'' else ''warn'')),
                 (''no-debugger'', JStr ''error''),
                 (''no-unused-vars'', JStr ''error'')])"
  by (simp add: baseConfig_def baseRules_def obj_get_Cons)

text \<open>
  C3 as the specification states it fails: without strictness the base rules map still
  sets \<open>no-debugger\<close> and \<open>no-unused-vars\<close> to \<open>error\<close>; they are not left to the project
  type. Here for an angular project, whose rule function adds no rules at all.
\<close>

theorem C3_counterexample:
  "obj_get (baseConfig ''angular'' False []) ''rules'' =
     Some (JObj [(''no-console'', JStr ''warn''),
                 (''no-debugger'', JStr ''error''),
                 (''no-unused-vars'', JStr ''error'')])"
  by (simp add: baseConfig_def baseRules_def obj_get_Cons)

section \<open>The nodejs scenario\<close>

text \<open>
  C7. For a nodejs project without TypeScript, strict, with the formatter and no existing
  configuration: the dependencies are the four common packages and the node plugin, no
  TypeScript package among them; the generated rules map has \<open>no-console\<close>,
  \<open>no-debugger\<close> and \<open>no-unused-vars\<close> at \<open>error\<close>; and the lint ignore list is the
  common list, nothing added.
\<close>

theorem C7_nodejs_scenario:
  "getProjectDependencies ''nodejs'' False True =
     Inr [''eslint@^8.56.0'', ''prettier@^3.2.5'', ''eslint-config-prettier@^9.1.0'',
          ''eslint-plugin-prettier@^5.1.3'', ''eslint-plugin-node@^11.1.0'']
   \<and> getProjectDependencies ''nodejs'' False True =
       Inr (commonDependencies @ [''eslint-plugin-node@^11.1.0''])
   \<and> set (commonDependencies @ [''eslint-plugin-node@^11.1.0'']) \<inter> set typescriptDependencies = {}
   \<and> (\<exists>cfg rules.
         generateConfig ''nodejs'' False True True packageJson (chooseExistingConfig None overwrite)
           = Inr cfg
       \<and> obj_get cfg ''rules'' = Some (JObj rules)
       \<and> obj_get rules ''no-console'' = Some (JStr ''error'')
       \<and> obj_get rules ''no-debugger'' = Some (JStr ''error'')
       \<and> obj_get rules ''no-unused-vars'' = Some (JStr ''error''))
   \<and> eslintIgnores ''nodejs'' = Inr commonIgnores
   \<and> createEslintIgnore ''nodejs'' = Inr (join_lines commonIgnores)"
proof -
  have deps: "getProjectDependencies ''nodejs'' False True =
     Inr [''eslint@^8.56.0'', ''prettier@^3.2.5'', ''eslint-config-prettier@^9.1.0'',
          ''eslint-plugin-prettier@^5.1.3'', ''eslint-plugin-node@^11.1.0'']"
    by (simp add: getProjectDependencies_def typeSpecificDependencies_def commonDependencies_def)
  have deps': "getProjectDependencies ''nodejs'' False True =
       Inr (commonDependencies @ [''eslint-plugin-node@^11.1.0''])"
    by (simp add: getProjectDependencies_def typeSpecificDependencies_def)
  have ign: "eslintIgnores ''nodejs'' = Inr commonIgnores"
    by (simp add: eslintIgnores_def typeSpecificIgnores_def)
  have nots: "set (commonDependencies @ [''eslint-plugin-node@^11.1.0'']) \<inter> set typescriptDependencies = {}"
    by (simp add: commonDependencies_def typescriptDependencies_def)
  have cfg: "\<exists>cfg rules.
         generateConfig ''nodejs'' False True True packageJson (chooseExistingConfig None overwrite)
           = Inr cfg
       \<and> obj_get cfg ''rules'' = Some (JObj rules)
       \<and> obj_get rules ''no-console'' = Some (JStr ''error'')
       \<and> obj_get rules ''no-debugger'' = Some (JStr ''error'')
       \<and> obj_get rules ''no-unused-vars'' = Some (JStr ''error'')"
    by (simp add: generateConfig_def chooseExistingConfig_def mergeConfigs_empty
        configureProject_def configureNodejs_def configurePrettier_def baseConfig_def
        baseRules_def step_eval key_eval cong: and_then_weak_cong)
  show ?thesis
    using deps deps' nots ign cfg by (simp add: createEslintIgnore_def)
qed

section \<open>The dependency catalog and the formatter\<close>

lemma starts_with_append: "starts_with xs sub \<Longrightarrow> starts_with (xs @ ys) sub"
  by (induction xs sub rule: starts_with.induct) simp_all

lemma str_includes_Nil: "str_includes xs []"
  by (cases xs) simp_all

lemma str_includes_append: "str_includes xs sub \<Longrightarrow> str_includes (xs @ ys) sub"
proof (induction xs)
  case Nil
  then show ?case by (simp add: str_includes_Nil)
next
  case (Cons x xs)
  from Cons.prems have "starts_with (x # xs) sub \<or> str_includes xs sub" by simp
  then show ?case
  proof
    assume "starts_with (x # xs) sub"
    then have "starts_with ((x # xs) @ ys) sub" by (rule starts_with_append)
    then show ?thesis by simp
  next
    assume "str_includes xs sub"
    then show ?thesis using Cons.IH by simp
  qed
qed

lemma specifier_name_prefix: "\<exists>rest. dep = specifier_name dep @ rest"
proof (cases "CHR ''@'' \<in> set dep")
  case False
  then show ?thesis by (simp add: specifier_name_def)
next
  case True
  let ?P = "\<lambda>c. c \<noteq> CHR ''@''"
  have "rev dep = takeWhile ?P (rev dep) @ dropWhile ?P (rev dep)" by simp
  moreover have "dropWhile ?P (rev dep) \<noteq> []" using True by (simp add: dropWhile_eq_Nil_conv)
  ultimately obtain c where "rev dep = takeWhile ?P (rev dep) @ c # tl (dropWhile ?P (rev dep))"
    by (metis list.collapse)
  then have "dep = rev (tl (dropWhile ?P (rev dep))) @ c # rev (takeWhile ?P (rev dep))"
    by (metis rev_append rev.simps(2) rev_rev_ident append_Cons append_Nil append_assoc)
  then show ?thesis using True by (auto simp: specifier_name_def)
qed

lemma name_includes_imp: "str_includes (specifier_name dep) sub \<Longrightarrow> str_includes dep sub"
  using specifier_name_prefix [of dep] str_includes_append by metis

lemma project_type_cases:
  "projectType \<in> set PROJECT_TYPES \<Longrightarrow>
   \<exists>specific. map_of typeSpecificDependencies projectType = Some specific"
  by (auto simp: PROJECT_TYPES_def typeSpecificDependencies_def)

text \<open>
  C4. For every project type of the enumerated set and either value of \<open>useTypeScript\<close>:
  without the formatter, \<open>getProjectDependencies\<close> returns a list in which no specifier
  (and so no specifier's name) contains \<open>prettier\<close>; with the formatter, it returns a list
  that holds the formatter's core package.
\<close>

theorem C4_formatter_packages:
  assumes "projectType \<in> set PROJECT_TYPES"
  shows "(\<exists>deps. getProjectDependencies projectType useTypeScript False = Inr deps
            \<and> (\<forall>dep \<in> set deps. \<not> str_includes dep ''prettier''
                                 \<and> \<not> str_includes (specifier_name dep) ''prettier''))
       \<and> (\<exists>deps. getProjectDependencies projectType useTypeScript True = Inr deps
            \<and> ''prettier@^3.2.5'' \<in> set deps)"
proof -
  from assms obtain specific where s: "map_of typeSpecificDependencies projectType = Some specific"
    using project_type_cases by blast
  have "\<exists>deps. getProjectDependencies projectType useTypeScript False = Inr deps
            \<and> (\<forall>dep \<in> set deps. \<not> str_includes dep ''prettier''
                                 \<and> \<not> str_includes (specifier_name dep) ''prettier'')"
    using s name_includes_imp by (auto simp: getProjectDependencies_def Let_def)
  moreover have "\<exists>deps. getProjectDependencies projectType useTypeScript True = Inr deps
            \<and> ''prettier@^3.2.5'' \<in> set deps"
    using s by (simp add: getProjectDependencies_def Let_def commonDependencies_def)
  ultimately show ?thesis by blast
qed

text \<open>The svelte catalog, the one with formatter-named packages of its own, with TypeScript.\<close>

theorem C4_witness:
  "''svelte'' \<in> set PROJECT_TYPES
   \<and> getProjectDependencies ''svelte'' True False =
       Inr [''eslint@^8.56.0'', ''eslint-plugin-svelte@latest'', ''svelte-eslint-parser@latest'',
            ''svelte-check@latest'', ''@typescript-eslint/parser@^7.1.0'',
            ''@typescript-eslint/eslint-plugin@^7.1.0'']
   \<and> (\<exists>deps. getProjectDependencies ''svelte'' True False = Inr deps
          \<and> (\<forall>dep \<in> set deps. \<not> str_includes dep ''prettier''
                               \<and> \<not> str_includes (specifier_name dep) ''prettier''))
   \<and> (\<exists>deps. getProjectDependencies ''svelte'' True True = Inr deps
          \<and> ''prettier@^3.2.5'' \<in> set deps)"
proof -
  have h: "''svelte'' \<in> set PROJECT_TYPES" by (simp add: PROJECT_TYPES_def)
  have e: "getProjectDependencies ''svelte'' True False =
       Inr [''eslint@^8.56.0'', ''eslint-plugin-svelte@latest'', ''svelte-eslint-parser@latest'',
            ''svelte-check@latest'', ''@typescript-eslint/parser@^7.1.0'',
            ''@typescript-eslint/eslint-plugin@^7.1.0'']"
    by (simp add: getProjectDependencies_def typeSpecificDependencies_def commonDependencies_def
        typescriptDependencies_def)
  show ?thesis using h e C4_formatter_packages [OF h, of True] by blast
qed

section \<open>Language detection for svelte projects\<close>

lemma ends_with_append: "ends_with (p @ s) s"
proof -
  have "starts_with xs xs" for xs :: string by (induction xs) simp_all
  then have "starts_with (rev s @ rev p) (rev s)" by (rule starts_with_append)
  then show ?thesis by (simp add: ends_with_def)
qed

text \<open>
  C8. For a svelte project whose directory listing holds a file named \<open>tsconfig.json\<close>,
  or one whose name ends in \<open>.ts\<close> or in \<open>.svelte\<close>, \<open>useTypeScript\<close> becomes true
  whatever was answered at the prompt, and \<open>tsconfig.json\<close> is written with the svelte
  TypeScript configuration.
\<close>

theorem C8_svelte_detection:
  assumes "file \<in> set files"
    and "file = ''tsconfig.json'' \<or> (\<exists>p. file = p @ ''.ts'') \<or> (\<exists>p. file = p @ ''.svelte'')"
  shows "detectLanguage ''svelte'' prompted (Some files) = (True, [(''tsconfig.json'', svelteTsConfig)])"
proof -
  from assms(2) have "file = ''tsconfig.json'' \<or> ends_with file ''.ts'' \<or> ends_with file ''.svelte''"
    using ends_with_append by blast
  with assms(1) have "isSvelteUsingTypeScript (Some files)"
    unfolding isSvelteUsingTypeScript_def list_ex_iff by auto
  then show ?thesis by (simp add: detectLanguage_def)
qed

text \<open>A directory with one component file, and the prompt answered with no.\<close>

theorem C8_witness:
  "''App.svelte'' \<in> set [''package.json'', ''App.svelte'']
   \<and> ''App.svelte'' = ''App'' @ ''.svelte''
   \<and> detectLanguage ''svelte'' False (Some [''package.json'', ''App.svelte''])
       = (True, [(''tsconfig.json'', svelteTsConfig)])"
proof -
  have m: "''App.svelte'' \<in> set [''package.json'', ''App.svelte'']" by simp
  have s: "''App.svelte'' = ''tsconfig.json'' \<or> (\<exists>p. ''App.svelte'' = p @ ''.ts'')
           \<or> (\<exists>p. ''App.svelte'' = p @ ''.svelte'')"
    by (intro disjI2 exI [of _ "''App''"]) simp
  show ?thesis using m C8_svelte_detection [OF m s, of False] by simp
qed

section \<open>The svelte rule function and the parsers\<close>

lemma configureSvelte_plain:
  "configureSvelte config False =
     Inr (extend_object
            (obj_set (obj_set (obj_set (obj_set config
               ''extends'' (strs [''eslint:recommended'', ''plugin:svelte/recommended'']))
               ''parser'' (JStr ''svelte-eslint-parser''))
               ''plugins'' (strs [''svelte'']))
               ''overrides''
                 (JArr [JObj [(''files'', strs [''*.svelte'']),
                              (''parser'', JStr ''svelte-eslint-parser''),
                              (''parserOptions'', JObj [(''parser'', JStr ''espree'')])]]))
            ''rules''
            [(''svelte/no-unused-vars'', JStr ''error''),
             (''no-unused-vars'', JStr ''off''),
             (''@typescript-eslint/no-unused-vars'', JStr ''off'')])"
  by (simp add: configureSvelte_def Let_def)

lemma obj_get_extend_object_other:
  "k' \<noteq> k \<Longrightarrow> obj_get (extend_object config k upd) k' = obj_get config k'"
  by (simp add: extend_object_def obj_get_obj_set)

lemma append_to_array:
  "obj_get config k = Some (JArr xs) \<Longrightarrow>
   append_to config k items = Inr (obj_set config k (JArr (xs @ map JStr items)))"
  by (simp add: append_to_def spread_or_empty_def and_then_Inr)

lemma append_to_absent:
  "obj_get config k = None \<Longrightarrow>
   append_to config k items = Inr (obj_set config k (JArr (map JStr items)))"
  by (simp add: append_to_def spread_or_empty_def and_then_Inr)

lemma configureTypeScript_arrays:
  assumes "obj_get config ''plugins'' = Some (JArr ps)" and "obj_get config ''extends'' = Some (JArr es)"
  shows "\<exists>c. configureTypeScript config = Inr c
           \<and> obj_get c ''parser'' = Some (JStr ''@typescript-eslint/parser'')
           \<and> obj_get c ''overrides'' = obj_get config ''overrides''
           \<and> obj_get c ''extends'' = Some (JArr (es @ [JStr ''plugin:@typescript-eslint/recommended'']))"
  using assms
  by (simp add: configureTypeScript_def Let_def append_to_array obj_get_obj_set and_then_Inr
      obj_get_extend_object_other cong: and_then_weak_cong)

lemma configurePrettier_array:
  assumes "obj_get config ''extends'' = Some (JArr es)"
  shows "\<exists>c. configurePrettier config = Inr c
           \<and> obj_get c ''parser'' = obj_get config ''parser''
           \<and> obj_get c ''overrides'' = obj_get config ''overrides''"
  using assms
  by (simp add: configurePrettier_def append_to_array obj_get_obj_set and_then_Inr
      obj_get_extend_object_other cong: and_then_weak_cong)

text \<open>
  C9. For a svelte project with \<open>useTypeScript\<close> true, whenever the merge with the existing
  configuration succeeds: the svelte rule function is called without \<open>useTypeScript\<close> and
  sets the document-wide parser to \<open>svelte-eslint-parser\<close>; the configuration is generated,
  the nested \<open>parserOptions.parser\<close> of its override for \<open>*.svelte\<close> is \<open>espree\<close>, and
  its document-wide parser is \<open>@typescript-eslint/parser\<close>, set by the TypeScript step.
\<close>

theorem C9_svelte_parsers:
  assumes "mergeConfigs (JObj (baseConfig ''svelte'' useStrict packageJson)) existingConfig = Inr merged"
  shows "configureProject ''svelte'' True merged = configureSvelte merged False
       \<and> (\<exists>c. configureSvelte merged False = Inr c
              \<and> obj_get c ''parser'' = Some (JStr ''svelte-eslint-parser''))
       \<and> (\<exists>cfg. generateConfig ''svelte'' True useStrict usePrettier packageJson existingConfig = Inr cfg
              \<and> obj_get cfg ''overrides'' =
                  Some (JArr [JObj [(''files'', JArr [JStr ''*.svelte'']),
                                    (''parser'', JStr ''svelte-eslint-parser''),
                                    (''parserOptions'', JObj [(''parser'', JStr ''espree'')])]])
              \<and> obj_get cfg ''parser'' = Some (JStr ''@typescript-eslint/parser''))"
proof -
  have disp: "configureProject ''svelte'' True merged = configureSvelte merged False"
    by (simp add: configureProject_def)
  obtain c where c: "configureSvelte merged False = Inr c"
    and cparser: "obj_get c ''parser'' = Some (JStr ''svelte-eslint-parser'')"
    and cplug: "obj_get c ''plugins'' = Some (JArr [JStr ''svelte''])"
    and cext: "obj_get c ''extends'' = Some (JArr [JStr ''eslint:recommended'', JStr ''plugin:svelte/recommended''])"
    and cover: "obj_get c ''overrides'' =
                  Some (JArr [JObj [(''files'', JArr [JStr ''*.svelte'']),
                                    (''parser'', JStr ''svelte-eslint-parser''),
                                    (''parserOptions'', JObj [(''parser'', JStr ''espree'')])]])"
    by (simp add: configureSvelte_plain obj_get_extend_object_other obj_get_obj_set strs_def)
  obtain t where t: "configureTypeScript c = Inr t"
    and tparser: "obj_get t ''parser'' = Some (JStr ''@typescript-eslint/parser'')"
    and tover: "obj_get t ''overrides'' = obj_get c ''overrides''"
    and t_ext: "obj_get t ''extends'' =
        Some (JArr ([JStr ''eslint:recommended'', JStr ''plugin:svelte/recommended'']
                    @ [JStr ''plugin:@typescript-eslint/recommended'']))"
    using configureTypeScript_arrays [OF cplug cext] by blast
  have gen: "generateConfig ''svelte'' True useStrict usePrettier packageJson existingConfig
               = (if usePrettier then configurePrettier t else Inr t)"
    by (simp add: generateConfig_def assms disp c t and_then_Inr)
  have "\<exists>cfg. generateConfig ''svelte'' True useStrict usePrettier packageJson existingConfig = Inr cfg
              \<and> obj_get cfg ''overrides'' = obj_get c ''overrides''
              \<and> obj_get cfg ''parser'' = Some (JStr ''@typescript-eslint/parser'')"
  proof (cases usePrettier)
    case False
    then show ?thesis using gen tparser tover by simp
  next
    case True
    from configurePrettier_array [OF t_ext] obtain p where "configurePrettier t = Inr p"
      "obj_get p ''parser'' = obj_get t ''parser''" "obj_get p ''overrides'' = obj_get t ''overrides''"
      by blast
    then show ?thesis using gen True tparser tover by simp
  qed
  then show ?thesis using disp c cparser cover by simp
qed

text \<open>No existing configuration, strict, with the formatter.\<close>

theorem C9_witness:
  "mergeConfigs (JObj (baseConfig ''svelte'' True [])) [] = Inr (baseConfig ''svelte'' True [])
   \<and> (\<exists>cfg. generateConfig ''svelte'' True True True [] [] = Inr cfg
          \<and> obj_get cfg ''overrides'' =
              Some (JArr [JObj [(''files'', JArr [JStr ''*.svelte'']),
                                (''parser'', JStr ''svelte-eslint-parser''),
                                (''parserOptions'', JObj [(''parser'', JStr ''espree'')])]])
          \<and> obj_get cfg ''parser'' = Some (JStr ''@typescript-eslint/parser''))"
proof -
  have m: "mergeConfigs (JObj (baseConfig ''svelte'' True [])) [] = Inr (baseConfig ''svelte'' True [])"
    by (rule mergeConfigs_empty)
  show ?thesis using m C9_svelte_parsers [OF m, of True] by blast
qed

section \<open>Facts about the deduplication\<close>

lemma same_value_zero_eq: "same_value_zero a b \<Longrightarrow> a = b"
  by (cases a; cases b) simp_all

lemma same_value_zero_scalar: "is_scalar a \<Longrightarrow> same_value_zero a a"
  by (cases a) simp_all

lemma set_dedup_from:
  "set (dedup_from seen xs) = {x \<in> set xs. \<not> list_ex (\<lambda>y. same_value_zero y x) seen}"
proof (induction xs arbitrary: seen)
  case Nil
  show ?case by simp
next
  case (Cons x xs)
  show ?case
  proof (cases "list_ex (\<lambda>y. same_value_zero y x) seen")
    case True
    then show ?thesis using Cons.IH [of seen] by auto
  next
    case False
    have "set (dedup_from (seen @ [x]) xs)
            = {z \<in> set xs. \<not> list_ex (\<lambda>y. same_value_zero y z) seen \<and> \<not> same_value_zero x z}"
      using Cons.IH [of "seen @ [x]"] by (auto simp: list_ex_iff)
    then show ?thesis using False by (auto dest: same_value_zero_eq)
  qed
qed

lemma set_set_dedup: "set (set_dedup xs) = set xs"
  by (simp add: set_dedup_def set_dedup_from)

lemma dedup_from_seen_cong:
  "(\<And>x. x \<in> set xs \<Longrightarrow> list_ex (\<lambda>y. same_value_zero y x) seen
                              = list_ex (\<lambda>y. same_value_zero y x) seen') \<Longrightarrow>
   dedup_from seen xs = dedup_from seen' xs"
proof (induction xs arbitrary: seen seen')
  case Nil
  show ?case by simp
next
  case (Cons x xs)
  have hd: "list_ex (\<lambda>y. same_value_zero y x) seen = list_ex (\<lambda>y. same_value_zero y x) seen'"
    using Cons.prems by simp
  have tl1: "dedup_from seen xs = dedup_from seen' xs"
    using Cons.prems by (intro Cons.IH) simp
  have tl2: "dedup_from (seen @ [x]) xs = dedup_from (seen' @ [x]) xs"
    using Cons.prems by (intro Cons.IH) (simp add: list_ex_iff)
  show ?case using hd tl1 tl2 by simp
qed

lemma dedup_from_append:
  "dedup_from seen (xs @ ys) = dedup_from seen xs @ dedup_from (seen @ xs) ys"
proof (induction xs arbitrary: seen)
  case Nil
  show ?case by simp
next
  case (Cons x xs)
  show ?case
  proof (cases "list_ex (\<lambda>y. same_value_zero y x) seen")
    case True
    have "dedup_from (seen @ xs) ys = dedup_from (seen @ x # xs) ys"
    proof (rule dedup_from_seen_cong)
      fix z
      from True obtain y where "y \<in> set seen" "same_value_zero y x" by (auto simp: list_ex_iff)
      then have "y = x" by (auto dest: same_value_zero_eq)
      then show "list_ex (\<lambda>y. same_value_zero y z) (seen @ xs)
                  = list_ex (\<lambda>y. same_value_zero y z) (seen @ x # xs)"
        using \<open>y \<in> set seen\<close> by (auto simp: list_ex_iff)
    qed
    then show ?thesis using True Cons.IH [of seen] by simp
  next
    case False
    then show ?thesis using Cons.IH [of "seen @ [x]"] by simp
  qed
qed

lemma dedup_from_all_seen:
  "(\<And>x. x \<in> set xs \<Longrightarrow> list_ex (\<lambda>y. same_value_zero y x) seen) \<Longrightarrow> dedup_from seen xs = []"
  by (induction xs) simp_all

lemma set_dedup_twice:
  assumes "list_all is_scalar xs"
  shows "set_dedup (xs @ xs) = set_dedup xs"
proof -
  have "dedup_from ([] @ xs) xs = []"
  proof (rule dedup_from_all_seen)
    fix x assume "x \<in> set xs"
    then have "same_value_zero x x" using assms by (auto simp: list_all_iff same_value_zero_scalar)
    then show "list_ex (\<lambda>y. same_value_zero y x) ([] @ xs)"
      using \<open>x \<in> set xs\<close> by (auto simp: list_ex_iff)
  qed
  then show ?thesis by (simp add: set_dedup_def dedup_from_append)
qed

lemma dedup_from_distinct:
  "distinct xs \<Longrightarrow> set xs \<inter> set seen = {} \<Longrightarrow> dedup_from seen xs = xs"
proof (induction xs arbitrary: seen)
  case Nil
  show ?case by simp
next
  case (Cons x xs)
  have "\<not> list_ex (\<lambda>y. same_value_zero y x) seen"
    using Cons.prems by (auto simp: list_ex_iff dest: same_value_zero_eq)
  moreover have "dedup_from (seen @ [x]) xs = xs"
    using Cons.prems by (intro Cons.IH) auto
  ultimately show ?case by simp
qed

lemma set_dedup_distinct: "distinct xs \<Longrightarrow> set_dedup xs = xs"
  by (simp add: set_dedup_def dedup_from_distinct)

section \<open>Facts about the merge\<close>

lemma array_operand_cong:
  "obj_get m k = obj_get m' k \<Longrightarrow> array_operand m k = array_operand m' k"
  by (simp add: array_operand_def)

lemma object_operand_cong:
  "obj_get m k = obj_get m' k \<Longrightarrow> object_operand m k = object_operand m' k"
  by (simp add: object_operand_def)

text \<open>One turn of the loop: the value assigned to \<open>merged[key]\<close>.\<close>

lemma merge_loop_Cons:
  "merge_loop merged ((k, v) # rest) =
     (case v of
        JArr xs \<Rightarrow>
          (case array_operand merged k of
             Inl e \<Rightarrow> Inl e
           | Inr ys \<Rightarrow> merge_loop (obj_set merged k (JArr (set_dedup (ys @ xs)))) rest)
      | JObj sub \<Rightarrow>
          (case merge_loop (object_operand merged k) sub of
             Inl e \<Rightarrow> Inl e
           | Inr r \<Rightarrow> merge_loop (obj_set merged k (JObj r)) rest)
      | _ \<Rightarrow> merge_loop (obj_set merged k v) rest)"
  by (cases v) simp_all

lemma merge_loop_step:
  assumes "merge_loop merged ((k, v) # rest) = Inr M"
  shows "\<exists>w. merge_loop (obj_set merged k w) rest = Inr M
           \<and> (is_scalar v \<longrightarrow> w = v)
           \<and> (\<forall>xs. v = JArr xs \<longrightarrow>
                 (\<exists>ys. array_operand merged k = Inr ys \<and> w = JArr (set_dedup (ys @ xs))))
           \<and> (\<forall>sub. v = JObj sub \<longrightarrow>
                 (\<exists>r. merge_loop (object_operand merged k) sub = Inr r \<and> w = JObj r))"
  using assms by (cases v) (auto split: sum.splits)

lemma merge_loop_frame:
  "merge_loop merged es = Inr M \<Longrightarrow> k \<notin> set (map fst es) \<Longrightarrow> obj_get M k = obj_get merged k"
proof (induction es arbitrary: merged)
  case Nil
  then show ?case by simp
next
  case (Cons p es)
  obtain k0 v0 where p: "p = (k0, v0)" by (cases p)
  have "merge_loop merged ((k0, v0) # es) = Inr M" using Cons.prems(1) by (simp only: p)
  from merge_loop_step [OF this] obtain w where w: "merge_loop (obj_set merged k0 w) es = Inr M"
    by (elim exE conjE)
  have "obj_get M k = obj_get (obj_set merged k0 w) k"
    using Cons.IH [OF w] Cons.prems(2) by simp
  then show ?case using Cons.prems(2) by (simp add: p obj_get_obj_set)
qed

lemma merge_loop_at:
  assumes "merge_loop merged es = Inr M" and "distinct (map fst es)" and "(k, v) \<in> set es"
  shows "(is_scalar v \<longrightarrow> obj_get M k = Some v)
       \<and> (\<forall>xs. v = JArr xs \<longrightarrow>
            (\<exists>ys. array_operand merged k = Inr ys \<and> obj_get M k = Some (JArr (set_dedup (ys @ xs)))))
       \<and> (\<forall>sub. v = JObj sub \<longrightarrow>
            (\<exists>r. merge_loop (object_operand merged k) sub = Inr r \<and> obj_get M k = Some (JObj r)))"
  using assms
proof (induction es arbitrary: merged)
  case Nil
  then show ?case by simp
next
  case (Cons p es)
  obtain k0 v0 where p: "p = (k0, v0)" by (cases p)
  have "merge_loop merged ((k0, v0) # es) = Inr M" using Cons.prems(1) by (simp only: p)
  from merge_loop_step [OF this] obtain w where w: "merge_loop (obj_set merged k0 w) es = Inr M"
    and ws: "is_scalar v0 \<longrightarrow> w = v0"
    and wa: "\<forall>xs. v0 = JArr xs \<longrightarrow>
               (\<exists>ys. array_operand merged k0 = Inr ys \<and> w = JArr (set_dedup (ys @ xs)))"
    and wo: "\<forall>sub. v0 = JObj sub \<longrightarrow>
               (\<exists>r. merge_loop (object_operand merged k0) sub = Inr r \<and> w = JObj r)"
    by (elim exE conjE)
  show ?case
  proof (cases "(k, v) = (k0, v0)")
    case True
    have "k0 \<notin> set (map fst es)" using Cons.prems(2) by (simp add: p)
    then have "obj_get M k0 = Some w"
      using merge_loop_frame [OF w] by (simp add: obj_get_obj_set)
    then show ?thesis using True ws wa wo by auto
  next
    case False
    then have mem: "(k, v) \<in> set es" using Cons.prems(3) by (auto simp: p)
    have dist: "distinct (map fst es)" using Cons.prems(2) by simp
    have "k \<noteq> k0" using Cons.prems(2) mem by (force simp: p)
    then have same: "obj_get (obj_set merged k0 w) k = obj_get merged k"
      by (simp add: obj_get_obj_set)
    show ?thesis
      using Cons.IH [OF w dist mem] array_operand_cong [OF same] object_operand_cong [OF same]
      by simp
  qed
qed

lemma obj_get_mem: "distinct (map fst ps) \<Longrightarrow> obj_get ps k = Some v \<longleftrightarrow> (k, v) \<in> set ps"
  by (simp add: obj_get_def)

lemma obj_get_None_iff: "obj_get ps k = None \<longleftrightarrow> k \<notin> set (map fst ps)"
  by (simp add: obj_get_def map_of_eq_None_iff)

lemma dedup_doc_append: "dedup_doc (ps @ qs) = dedup_doc ps @ dedup_doc qs"
  by (induction ps rule: dedup_doc.induct) simp_all

lemma keys_dedup_doc: "map fst (dedup_doc ps) = map fst ps"
  by (induction ps rule: dedup_doc.induct) simp_all

lemma dedup_doc_distinct_seqs: "distinct_seqs ps \<Longrightarrow> dedup_doc ps = ps"
  by (induction ps rule: dedup_doc.induct) (simp_all add: set_dedup_distinct)

lemma obj_get_middle:
  "k \<notin> set (map fst ps) \<Longrightarrow> obj_get (ps @ (k, v) # rest) k = Some v"
  by (induction ps) (auto simp: obj_get_def)

lemma replace_prop_middle:
  "k \<notin> set (map fst ps) \<Longrightarrow> replace_prop k w (ps @ (k, v) # rest) = ps @ (k, w) # rest"
  by (induction ps) auto

lemma obj_set_middle:
  "k \<notin> set (map fst ps) \<Longrightarrow> obj_set (ps @ (k, v) # rest) k w = ps @ (k, w) # rest"
  by (simp add: obj_set_def obj_get_middle replace_prop_middle)

lemma merge_self_general:
  "merged = dedup_doc pre @ es \<Longrightarrow> distinct (map fst (pre @ es)) \<Longrightarrow> nested_ok es \<Longrightarrow>
   merge_loop merged es = Inr (dedup_doc (pre @ es))"
proof (induction merged es arbitrary: pre rule: merge_loop.induct)
  case (1 merged)
  then show ?case by simp
next
  case (2 merged k xs rest)
  have notin: "k \<notin> set (map fst (dedup_doc pre))"
    using "2.prems"(2) by (simp add: keys_dedup_doc)
  have get: "obj_get merged k = Some (JArr xs)"
    using notin by (simp add: "2.prems"(1) obj_get_middle)
  then have op: "array_operand merged k = Inr xs"
    by (simp add: array_operand_def)
  have scal: "list_all is_scalar xs" using "2.prems"(3) by simp
  have set: "obj_set merged k (JArr (set_dedup (xs @ xs)))
               = dedup_doc (pre @ [(k, JArr xs)]) @ rest"
    using notin by (simp add: "2.prems"(1) obj_set_middle set_dedup_twice [OF scal] dedup_doc_append)
  have "merge_loop (obj_set merged k (JArr (set_dedup (xs @ xs)))) rest
          = Inr (dedup_doc ((pre @ [(k, JArr xs)]) @ rest))"
    using "2.prems"(2,3) by (intro "2.IH" [OF op set]) simp_all
  then show ?case by (simp add: op)
next
  case (3 merged k sub rest)
  have notin: "k \<notin> set (map fst (dedup_doc pre))"
    using "3.prems"(2) by (simp add: keys_dedup_doc)
  have get: "obj_get merged k = Some (JObj sub)"
    using notin by (simp add: "3.prems"(1) obj_get_middle)
  then have op: "object_operand merged k = sub"
    by (simp add: object_operand_def)
  have inner: "merge_loop (object_operand merged k) sub = Inr (dedup_doc ([] @ sub))"
    using "3.prems"(3) by (intro "3.IH"(1)) (simp_all add: op plain_keys_def)
  then have inner': "merge_loop (object_operand merged k) sub = Inr (dedup_doc sub)" by simp
  have set: "obj_set merged k (JObj (dedup_doc sub)) = dedup_doc (pre @ [(k, JObj sub)]) @ rest"
    using notin by (simp add: "3.prems"(1) obj_set_middle dedup_doc_append)
  have "merge_loop (obj_set merged k (JObj (dedup_doc sub))) rest
          = Inr (dedup_doc ((pre @ [(k, JObj sub)]) @ rest))"
    using "3.prems"(2,3) by (intro "3.IH"(2) [OF inner' set]) simp_all
  then show ?case by (simp add: inner')
next
  case (4 merged k rest)
  have notin: "k \<notin> set (map fst (dedup_doc pre))"
    using "4.prems"(2) by (simp add: keys_dedup_doc)
  have set: "obj_set merged k JNull = dedup_doc (pre @ [(k, JNull)]) @ rest"
    using notin by (simp add: "4.prems"(1) obj_set_middle dedup_doc_append)
  have "merge_loop (obj_set merged k JNull) rest = Inr (dedup_doc ((pre @ [(k, JNull)]) @ rest))"
    using "4.prems"(2,3) by (intro "4.IH" [OF set]) simp_all
  then show ?case by simp
next
  case (5 merged k b rest)
  have notin: "k \<notin> set (map fst (dedup_doc pre))"
    using "5.prems"(2) by (simp add: keys_dedup_doc)
  have set: "obj_set merged k (JBool b) = dedup_doc (pre @ [(k, JBool b)]) @ rest"
    using notin by (simp add: "5.prems"(1) obj_set_middle dedup_doc_append)
  have "merge_loop (obj_set merged k (JBool b)) rest = Inr (dedup_doc ((pre @ [(k, JBool b)]) @ rest))"
    using "5.prems"(2,3) by (intro "5.IH" [OF set]) simp_all
  then show ?case by simp
next
  case (6 merged k n rest)
  have notin: "k \<notin> set (map fst (dedup_doc pre))"
    using "6.prems"(2) by (simp add: keys_dedup_doc)
  have set: "obj_set merged k (JNum n) = dedup_doc (pre @ [(k, JNum n)]) @ rest"
    using notin by (simp add: "6.prems"(1) obj_set_middle dedup_doc_append)
  have "merge_loop (obj_set merged k (JNum n)) rest = Inr (dedup_doc ((pre @ [(k, JNum n)]) @ rest))"
    using "6.prems"(2,3) by (intro "6.IH" [OF set]) simp_all
  then show ?case by simp
next
  case (7 merged k s rest)
  have notin: "k \<notin> set (map fst (dedup_doc pre))"
    using "7.prems"(2) by (simp add: keys_dedup_doc)
  have set: "obj_set merged k (JStr s) = dedup_doc (pre @ [(k, JStr s)]) @ rest"
    using notin by (simp add: "7.prems"(1) obj_set_middle dedup_doc_append)
  have "merge_loop (obj_set merged k (JStr s)) rest = Inr (dedup_doc ((pre @ [(k, JStr s)]) @ rest))"
    using "7.prems"(2,3) by (intro "7.IH" [OF set]) simp_all
  then show ?case by simp
qed

lemma merge_self: "document X \<Longrightarrow> mergeConfigs (JObj X) X = Inr (dedup_doc X)"
  using merge_self_general [of X "[]" X]
  by (simp add: mergeConfigs_def document_def plain_keys_def)

lemma merge_loop_total:
  "shapes_agree base es \<Longrightarrow> (\<And>k. k \<in> set (map fst es) \<Longrightarrow> obj_get merged k = obj_get base k) \<Longrightarrow>
   distinct (map fst es) \<Longrightarrow> nested_ok es \<Longrightarrow> \<exists>M. merge_loop merged es = Inr M"
proof (induction base es arbitrary: merged rule: shapes_agree.induct)
  case (1 base)
  show ?case by simp
next
  case (2 base k ys rest)
  have same: "obj_get merged k = obj_get base k" using "2.prems"(2) by simp
  have "\<exists>xs. array_operand base k = Inr xs"
    using "2.prems"(1) by (auto simp: array_operand_def split: option.splits jsval.splits)
  then obtain xs where xs: "array_operand merged k = Inr xs"
    using array_operand_cong [OF same] by auto
  have "\<exists>M. merge_loop (obj_set merged k (JArr (set_dedup (xs @ ys)))) rest = Inr M"
  proof (rule "2.IH")
    show "shapes_agree base rest" using "2.prems"(1) by simp
    show "distinct (map fst rest)" using "2.prems"(3) by simp
    show "nested_ok rest" using "2.prems"(4) by simp
    fix k' assume "k' \<in> set (map fst rest)"
    then have "k' \<noteq> k" using "2.prems"(3) by auto
    then show "obj_get (obj_set merged k (JArr (set_dedup (xs @ ys)))) k' = obj_get base k'"
      using "2.prems"(2) [of k'] \<open>k' \<in> set (map fst rest)\<close> by (simp add: obj_get_obj_set)
  qed
  then show ?case by (simp add: xs)
next
  case (3 base k sub rest)
  have same: "obj_get merged k = obj_get base k" using "3.prems"(2) by simp
  have sub_ok: "distinct (map fst sub)" "nested_ok sub"
    using "3.prems"(4) by (simp_all add: plain_keys_def)
  have "\<exists>r. merge_loop (object_operand base k) sub = Inr r"
  proof (cases "obj_get base k")
    case None
    then have "shapes_agree [] sub" using "3.prems"(1) by simp
    from "3.IH"(1) [OF None this _ sub_ok, of "[]"] None
    show ?thesis by (simp add: object_operand_def)
  next
    case (Some b)
    then obtain a where a: "b = JObj a" and ag: "shapes_agree a sub"
      using "3.prems"(1) by (cases b) simp_all
    from "3.IH"(2) [OF Some a ag _ sub_ok, of a] Some a
    show ?thesis by (simp add: object_operand_def)
  qed
  then obtain r where r: "merge_loop (object_operand merged k) sub = Inr r"
    using object_operand_cong [OF same] by auto
  have "\<exists>M. merge_loop (obj_set merged k (JObj r)) rest = Inr M"
  proof (rule "3.IH"(3))
    show "shapes_agree base rest" using "3.prems"(1) by simp
    show "distinct (map fst rest)" using "3.prems"(3) by simp
    show "nested_ok rest" using "3.prems"(4) by simp
    fix k' assume "k' \<in> set (map fst rest)"
    then have "k' \<noteq> k" using "3.prems"(3) by auto
    then show "obj_get (obj_set merged k (JObj r)) k' = obj_get base k'"
      using "3.prems"(2) [of k'] \<open>k' \<in> set (map fst rest)\<close> by (simp add: obj_get_obj_set)
  qed
  then show ?case by (simp add: r)
next
  case (4 base k rest)
  have "\<exists>M. merge_loop (obj_set merged k JNull) rest = Inr M"
  proof (rule "4.IH")
    show "shapes_agree base rest" using "4.prems"(1) by simp
    show "distinct (map fst rest)" using "4.prems"(3) by simp
    show "nested_ok rest" using "4.prems"(4) by simp
    fix k' assume "k' \<in> set (map fst rest)"
    then have "k' \<noteq> k" using "4.prems"(3) by auto
    then show "obj_get (obj_set merged k JNull) k' = obj_get base k'"
      using "4.prems"(2) [of k'] \<open>k' \<in> set (map fst rest)\<close> by (simp add: obj_get_obj_set)
  qed
  then show ?case by simp
next
  case (5 base k b rest)
  have "\<exists>M. merge_loop (obj_set merged k (JBool b)) rest = Inr M"
  proof (rule "5.IH")
    show "shapes_agree base rest" using "5.prems"(1) by simp
    show "distinct (map fst rest)" using "5.prems"(3) by simp
    show "nested_ok rest" using "5.prems"(4) by simp
    fix k' assume "k' \<in> set (map fst rest)"
    then have "k' \<noteq> k" using "5.prems"(3) by auto
    then show "obj_get (obj_set merged k (JBool b)) k' = obj_get base k'"
      using "5.prems"(2) [of k'] \<open>k' \<in> set (map fst rest)\<close> by (simp add: obj_get_obj_set)
  qed
  then show ?case by simp
next
  case (6 base k n rest)
  have "\<exists>M. merge_loop (obj_set merged k (JNum n)) rest = Inr M"
  proof (rule "6.IH")
    show "shapes_agree base rest" using "6.prems"(1) by simp
    show "distinct (map fst rest)" using "6.prems"(3) by simp
    show "nested_ok rest" using "6.prems"(4) by simp
    fix k' assume "k' \<in> set (map fst rest)"
    then have "k' \<noteq> k" using "6.prems"(3) by auto
    then show "obj_get (obj_set merged k (JNum n)) k' = obj_get base k'"
      using "6.prems"(2) [of k'] \<open>k' \<in> set (map fst rest)\<close> by (simp add: obj_get_obj_set)
  qed
  then show ?case by simp
next
  case (7 base k s rest)
  have "\<exists>M. merge_loop (obj_set merged k (JStr s)) rest = Inr M"
  proof (rule "7.IH")
    show "shapes_agree base rest" using "7.prems"(1) by simp
    show "distinct (map fst rest)" using "7.prems"(3) by simp
    show "nested_ok rest" using "7.prems"(4) by simp
    fix k' assume "k' \<in> set (map fst rest)"
    then have "k' \<noteq> k" using "7.prems"(3) by auto
    then show "obj_get (obj_set merged k (JStr s)) k' = obj_get base k'"
      using "7.prems"(2) [of k'] \<open>k' \<in> set (map fst rest)\<close> by (simp add: obj_get_obj_set)
  qed
  then show ?case by simp
qed

lemma mergeConfigs_total:
  "shapes_agree A B \<Longrightarrow> document B \<Longrightarrow> \<exists>M. mergeConfigs (JObj A) B = Inr M"
  using merge_loop_total [of A B A]
  by (simp add: mergeConfigs_def document_def plain_keys_def)

lemma distinct_dedup_from:
  "list_all is_scalar xs \<Longrightarrow> distinct (dedup_from seen xs)"
proof (induction xs arbitrary: seen)
  case Nil
  show ?case by simp
next
  case (Cons x xs)
  have "same_value_zero x x" using Cons.prems by (simp add: same_value_zero_scalar)
  then have "x \<notin> set (dedup_from (seen @ [x]) xs)"
    by (auto simp: set_dedup_from list_ex_iff)
  then show ?case using Cons by simp
qed

lemma scalar_dedup_from: "list_all is_scalar xs \<Longrightarrow> list_all is_scalar (dedup_from seen xs)"
  by (simp add: list_all_iff set_dedup_from)

lemma dedup_doc_document:
  "nested_ok ps \<Longrightarrow> nested_ok (dedup_doc ps) \<and> distinct_seqs (dedup_doc ps)"
  by (induction ps rule: dedup_doc.induct)
     (simp_all add: set_dedup_def distinct_dedup_from scalar_dedup_from plain_keys_def keys_dedup_doc)

lemma mergeConfigs_at_key:
  assumes "plain_keys incoming" and "obj_get incoming k = Some v"
    and "mergeConfigs (JObj base) incoming = Inr M"
  shows "(is_scalar v \<longrightarrow> obj_get M k = Some v)
       \<and> (\<forall>ys. v = JArr ys \<longrightarrow>
            (\<forall>xs. obj_get base k = Some (JArr xs) \<longrightarrow>
               obj_get M k = Some (JArr (set_dedup (xs @ ys))))
          \<and> (obj_get base k = None \<longrightarrow> obj_get M k = Some (JArr (set_dedup ys))))
       \<and> (\<forall>b. v = JObj b \<longrightarrow>
            (\<forall>a. obj_get base k = Some (JObj a) \<longrightarrow>
               (\<exists>r. mergeConfigs (JObj a) b = Inr r \<and> obj_get M k = Some (JObj r)))
          \<and> (obj_get base k = None \<longrightarrow>
               (\<exists>r. mergeConfigs (JObj []) b = Inr r \<and> obj_get M k = Some (JObj r))))"
proof -
  have dist: "distinct (map fst incoming)" using assms(1) by (simp add: plain_keys_def)
  have mem: "(k, v) \<in> set incoming" using assms(2) dist by (simp add: obj_get_mem)
  have loop: "merge_loop base incoming = Inr M" using assms(3) by (simp add: mergeConfigs_def)
  note at = merge_loop_at [OF loop dist mem]
  have scalar: "is_scalar v \<longrightarrow> obj_get M k = Some v" using at by blast
  have arr: "obj_get M k = Some (JArr (set_dedup (xs @ ys)))"
    if "v = JArr ys" "obj_get base k = Some (JArr xs)" for xs ys
  proof -
    from at that(1) obtain zs where "array_operand base k = Inr zs"
      "obj_get M k = Some (JArr (set_dedup (zs @ ys)))" by blast
    then show ?thesis using that(2) by (simp add: array_operand_def)
  qed
  have arr0: "obj_get M k = Some (JArr (set_dedup ys))"
    if "v = JArr ys" "obj_get base k = None" for ys
  proof -
    from at that(1) obtain zs where "array_operand base k = Inr zs"
      "obj_get M k = Some (JArr (set_dedup (zs @ ys)))" by blast
    then show ?thesis using that(2) by (auto simp: array_operand_def split: if_splits)
  qed
  have obj: "\<exists>r. mergeConfigs (JObj a) b = Inr r \<and> obj_get M k = Some (JObj r)"
    if "v = JObj b" "obj_get base k = Some (JObj a)" for a b
    using at that by (simp add: object_operand_def mergeConfigs_def)
  have obj0: "\<exists>r. mergeConfigs (JObj []) b = Inr r \<and> obj_get M k = Some (JObj r)"
    if "v = JObj b" "obj_get base k = None" for b
    using at that by (simp add: object_operand_def mergeConfigs_def)
  show ?thesis using scalar arr arr0 obj obj0 by blast
qed

section \<open>The merge: dispatch, sequences, idempotence\<close>

lemma char_of_48: "char_of (48 :: nat) = CHR ''0''"
  by code_simp

lemma char_of_49: "char_of (49 :: nat) = CHR ''1''"
  by code_simp

lemma dec_string_0: "dec_string 0 = ''0''"
  by (simp add: dec_string.simps char_of_48)

lemma dec_string_1: "dec_string (Suc 0) = ''1''"
  by (simp add: dec_string.simps char_of_49)

lemma indexed_two: "indexed [a, b] = [(''0'', a), (''1'', b)]"
  by (simp add: indexed_def upt_rec dec_string_0 dec_string_1)

text \<open>
  C1 fails on the code where the base holds a scalar and the incoming document a sequence
  or a nested document: the claim says the result at that key is the incoming value. The
  merge looks at the shape of the incoming value only and guards only a missing or falsy
  base (\<open>merged[key] || []\<close>, \<open>merged[key] || {}\<close>). Over the strict base rules, an
  existing \<open>no-console: [warn]\<close> gives the characters of the base's \<open>error\<close> followed by
  \<open>warn\<close>, also in the generated configuration; over the base's \<open>root: true\<close>, an
  existing sequence makes the merge, and the generation, throw; and a base string under an
  incoming nested document is spread into its characters. Where the incoming value is a
  scalar, or the base holds the same shape or lacks the key, the merge does what the claim
  says (\<open>mergeConfigs_at_key\<close>).
\<close>

theorem C1_mismatched_base:
  "obj_get (baseRules True) ''no-console'' = Some (JStr ''error'')
   \<and> mergeConfigs (JObj (baseRules True)) [(''no-console'', JArr [JStr ''warn''])] =
       Inr [(''no-console'', JArr [JStr ''e'', JStr ''r'', JStr ''o'', JStr ''warn'']),
            (''no-debugger'', JStr ''error''),
            (''no-unused-vars'', JStr ''error'')]
   \<and> (\<exists>cfg. generateConfig ''angular'' False True False []
                (chooseExistingConfig
                   (Some [(''rules'', JObj [(''no-console'', JArr [JStr ''warn''])])]) False) = Inr cfg
          \<and> obj_get cfg ''rules'' =
              Some (JObj [(''no-console'', JArr [JStr ''e'', JStr ''r'', JStr ''o'', JStr ''warn'']),
                          (''no-debugger'', JStr ''error''),
                          (''no-unused-vars'', JStr ''error'')]))
   \<and> mergeConfigs (JObj [(''root'', JBool True)]) [(''root'', JArr [JStr ''x''])] = Inl TypeError
   \<and> generateConfig ''angular'' False True False []
         (chooseExistingConfig (Some [(''root'', JArr [JStr ''x''])]) False) = Inl TypeError
   \<and> mergeConfigs (JObj [(''parser'', JStr ''ab'')]) [(''parser'', JObj [(''x'', JBool True)])] =
       Inr [(''parser'', JObj [(''0'', JStr ''a''), (''1'', JStr ''b''), (''x'', JBool True)])]"
proof -
  have a: "obj_get (baseRules True) ''no-console'' = Some (JStr ''error'')"
    by (simp add: baseRules_def obj_get_Cons)
  have b: "mergeConfigs (JObj (baseRules True)) [(''no-console'', JArr [JStr ''warn''])] =
       Inr [(''no-console'', JArr [JStr ''e'', JStr ''r'', JStr ''o'', JStr ''warn'']),
            (''no-debugger'', JStr ''error''),
            (''no-unused-vars'', JStr ''error'')]"
    by (simp add: merge_eval baseRules_def obj_get_Cons obj_get_Nil obj_set_Cons obj_set_Nil key_eval)
  have m: "mergeConfigs (JObj (baseConfig ''angular'' True []))
             [(''rules'', JObj [(''no-console'', JArr [JStr ''warn''])])] =
       Inr [(''root'', JBool True),
            (''env'', JObj [(''browser'', JBool True), (''es2022'', JBool True), (''node'', JBool True)]),
            (''parserOptions'', JObj [(''ecmaVersion'', JStr ''latest''), (''sourceType'', JStr ''script'')]),
            (''rules'', JObj [(''no-console'', JArr [JStr ''e'', JStr ''r'', JStr ''o'', JStr ''warn'']),
                             (''no-debugger'', JStr ''error''),
                             (''no-unused-vars'', JStr ''error'')])]"
    by (simp add: merge_eval baseConfig_def baseRules_def obj_get_Cons obj_get_Nil obj_set_Cons
        obj_set_Nil key_eval)
  have c: "\<exists>cfg. generateConfig ''angular'' False True False []
                (chooseExistingConfig
                   (Some [(''rules'', JObj [(''no-console'', JArr [JStr ''warn''])])]) False) = Inr cfg
          \<and> obj_get cfg ''rules'' =
              Some (JObj [(''no-console'', JArr [JStr ''e'', JStr ''r'', JStr ''o'', JStr ''warn'']),
                          (''no-debugger'', JStr ''error''),
                          (''no-unused-vars'', JStr ''error'')])"
    by (simp add: generateConfig_def chooseExistingConfig_def m configureProject_def
        configureAngular_def step_eval key_eval cong: and_then_weak_cong)
  have d: "mergeConfigs (JObj [(''root'', JBool True)]) [(''root'', JArr [JStr ''x''])] = Inl TypeError"
    by (simp add: merge_eval obj_get_Cons)
  have m2: "mergeConfigs (JObj (baseConfig ''angular'' True [])) [(''root'', JArr [JStr ''x''])]
              = Inl TypeError"
    by (simp add: merge_eval baseConfig_def obj_get_Cons)
  have e: "generateConfig ''angular'' False True False []
         (chooseExistingConfig (Some [(''root'', JArr [JStr ''x''])]) False) = Inl TypeError"
    by (simp add: generateConfig_def chooseExistingConfig_def m2 and_then_Inl)
  have f: "mergeConfigs (JObj [(''parser'', JStr ''ab'')]) [(''parser'', JObj [(''x'', JBool True)])] =
       Inr [(''parser'', JObj [(''0'', JStr ''a''), (''1'', JStr ''b''), (''x'', JBool True)])]"
    by (simp add: merge_eval indexed_two obj_get_Cons obj_get_Nil obj_set_Cons obj_set_Nil key_eval)
  show ?thesis using a b c d e f by (intro conjI)
qed

lemma shapes_agree_at:
  "shapes_agree base es \<Longrightarrow> (k, v) \<in> set es \<Longrightarrow>
   (\<forall>ys. v = JArr ys \<longrightarrow> obj_get base k = None \<or> (\<exists>xs. obj_get base k = Some (JArr xs)))
   \<and> (\<forall>b. v = JObj b \<longrightarrow> obj_get base k = None \<or> (\<exists>a. obj_get base k = Some (JObj a)))"
proof (induction base es rule: shapes_agree.induct)
  case (1 base)
  then show ?case by simp
next
  case (2 base k' ys rest)
  then show ?case by (auto split: option.splits jsval.splits)
next
  case (3 base k' sub rest)
  then show ?case by (auto split: option.splits jsval.splits)
next
  case (4 base k' rest)
  then show ?case by auto
next
  case (5 base k' b rest)
  then show ?case by auto
next
  case (6 base k' n rest)
  then show ?case by auto
next
  case (7 base k' s rest)
  then show ?case by auto
qed

lemma merged_scalar:
  "plain_keys B \<Longrightarrow> obj_get B k = Some v \<Longrightarrow> mergeConfigs (JObj A) B = Inr M \<Longrightarrow> is_scalar v \<Longrightarrow>
   obj_get M k = Some v"
  using mergeConfigs_at_key [of B k v A M] by simp

lemma merged_seq_both:
  "plain_keys B \<Longrightarrow> obj_get B k = Some (JArr ys) \<Longrightarrow> mergeConfigs (JObj A) B = Inr M \<Longrightarrow>
   obj_get A k = Some (JArr xs) \<Longrightarrow> obj_get M k = Some (JArr (set_dedup (xs @ ys)))"
  using mergeConfigs_at_key [of B k "JArr ys" A M] by simp

lemma merged_seq_new:
  "plain_keys B \<Longrightarrow> obj_get B k = Some (JArr ys) \<Longrightarrow> mergeConfigs (JObj A) B = Inr M \<Longrightarrow>
   obj_get A k = None \<Longrightarrow> obj_get M k = Some (JArr (set_dedup ys))"
  using mergeConfigs_at_key [of B k "JArr ys" A M] by simp

lemma merged_doc:
  "plain_keys B \<Longrightarrow> obj_get B k = Some (JObj b) \<Longrightarrow> mergeConfigs (JObj A) B = Inr M \<Longrightarrow>
   obj_get A k = None \<or> obj_get A k = Some (JObj a) \<Longrightarrow> \<exists>r. obj_get M k = Some (JObj r)"
  using mergeConfigs_at_key [of B k "JObj b" A M] by auto

lemma merged_sequence_fields:
  assumes pk: "plain_keys B" and ag: "shapes_agree A B"
    and m: "mergeConfigs (JObj A) B = Inr M" and z: "obj_get M k = Some (JArr zs)"
  shows "set zs = set (sequence_at A k) \<union> set (sequence_at B k)"
proof (cases "obj_get B k")
  case None
  have eq: "obj_get M k = obj_get A k"
    using m None merge_loop_frame [of A B M k] by (simp add: mergeConfigs_def obj_get_None_iff)
  have "obj_get A k = Some (JArr zs)" unfolding eq [symmetric] by (rule z)
  then show ?thesis using None by (simp add: sequence_at_def)
next
  case (Some v)
  have dist: "distinct (map fst B)" using pk by (simp add: plain_keys_def)
  have mem: "(k, v) \<in> set B" using Some dist by (simp add: obj_get_mem)
  note sh = shapes_agree_at [OF ag mem]
  have not_scalar: "\<not> is_scalar v"
  proof
    assume sc: "is_scalar v"
    have "obj_get M k = Some v" by (rule merged_scalar [OF pk Some m sc])
    with z have "v = JArr zs" by (metis option.inject)
    with sc show False by simp
  qed
  show ?thesis
  proof (cases v)
    case (JArr ys)
    have bk: "obj_get B k = Some (JArr ys)" unfolding JArr [symmetric] by (rule Some)
    have "obj_get A k = None \<or> (\<exists>xs. obj_get A k = Some (JArr xs))"
      using sh JArr by simp
    then show ?thesis
    proof (elim disjE exE)
      assume none: "obj_get A k = None"
      have "obj_get M k = Some (JArr (set_dedup ys))" by (rule merged_seq_new [OF pk bk m none])
      then have "zs = set_dedup ys" using z by simp
      then show ?thesis by (simp add: sequence_at_def none bk set_set_dedup)
    next
      fix xs assume some: "obj_get A k = Some (JArr xs)"
      have "obj_get M k = Some (JArr (set_dedup (xs @ ys)))" by (rule merged_seq_both [OF pk bk m some])
      then have "zs = set_dedup (xs @ ys)" using z by simp
      then show ?thesis by (simp add: sequence_at_def some bk set_set_dedup)
    qed
  next
    case (JObj b)
    have bk: "obj_get B k = Some (JObj b)" unfolding JObj [symmetric] by (rule Some)
    have "\<exists>a. obj_get A k = None \<or> obj_get A k = Some (JObj a)"
      using sh JObj by auto
    then obtain a where "obj_get A k = None \<or> obj_get A k = Some (JObj a)" ..
    from merged_doc [OF pk bk m this] z show ?thesis by auto
  next
    case JNull
    show ?thesis using not_scalar unfolding JNull by simp
  next
    case (JBool b)
    show ?thesis using not_scalar unfolding JBool by simp
  next
    case (JNum n)
    show ?thesis using not_scalar unfolding JNum by simp
  next
    case (JStr s)
    show ?thesis using not_scalar unfolding JStr by simp
  qed
qed

text \<open>
  What the merge does for sequences where nothing is mismatched. For an incoming document
  \<open>B\<close> without a repeated key: the merge returns whenever the shapes of \<open>A\<close> and \<open>B\<close>
  agree; and whenever it returns, a key at which both hold a sequence has, as a set, exactly
  the elements of the two sequences, and is their concatenation when they are disjoint and
  free of duplicates; a sequence of \<open>B\<close> at a key that \<open>A\<close> lacks keeps all its elements;
  every field that only \<open>A\<close> has is unchanged; and when the shapes agree, every
  sequence-valued field of the result holds exactly the elements of the sequences that \<open>A\<close>
  and \<open>B\<close> hold at its key.
\<close>

lemma merge_sequences_agreeing_shapes:
  assumes "plain_keys B"
  shows "(nested_ok B \<and> shapes_agree A B \<longrightarrow> (\<exists>M. mergeConfigs (JObj A) B = Inr M))
       \<and> (\<forall>M. mergeConfigs (JObj A) B = Inr M \<longrightarrow>
            (\<forall>k xs ys. obj_get A k = Some (JArr xs) \<and> obj_get B k = Some (JArr ys) \<longrightarrow>
               (\<exists>zs. obj_get M k = Some (JArr zs) \<and> set zs = set xs \<union> set ys
                    \<and> (distinct (xs @ ys) \<longrightarrow> zs = xs @ ys)))
          \<and> (\<forall>k ys. obj_get A k = None \<and> obj_get B k = Some (JArr ys) \<longrightarrow>
               (\<exists>zs. obj_get M k = Some (JArr zs) \<and> set zs = set ys))
          \<and> (\<forall>k. obj_get B k = None \<longrightarrow> obj_get M k = obj_get A k)
          \<and> (shapes_agree A B \<longrightarrow>
               (\<forall>k zs. obj_get M k = Some (JArr zs) \<longrightarrow>
                  set zs = set (sequence_at A k) \<union> set (sequence_at B k))))"
proof -
  have total: "nested_ok B \<and> shapes_agree A B \<longrightarrow> (\<exists>M. mergeConfigs (JObj A) B = Inr M)"
    using assms mergeConfigs_total [of A B] by (simp add: document_def)
  have rest: "(\<forall>k xs ys. obj_get A k = Some (JArr xs) \<and> obj_get B k = Some (JArr ys) \<longrightarrow>
               (\<exists>zs. obj_get M k = Some (JArr zs) \<and> set zs = set xs \<union> set ys
                    \<and> (distinct (xs @ ys) \<longrightarrow> zs = xs @ ys)))
          \<and> (\<forall>k ys. obj_get A k = None \<and> obj_get B k = Some (JArr ys) \<longrightarrow>
               (\<exists>zs. obj_get M k = Some (JArr zs) \<and> set zs = set ys))
          \<and> (\<forall>k. obj_get B k = None \<longrightarrow> obj_get M k = obj_get A k)
          \<and> (shapes_agree A B \<longrightarrow>
               (\<forall>k zs. obj_get M k = Some (JArr zs) \<longrightarrow>
                  set zs = set (sequence_at A k) \<union> set (sequence_at B k)))"
    if m: "mergeConfigs (JObj A) B = Inr M" for M
  proof (intro conjI allI impI)
    fix k xs ys
    assume "obj_get A k = Some (JArr xs) \<and> obj_get B k = Some (JArr ys)"
    then have a: "obj_get A k = Some (JArr xs)" and b: "obj_get B k = Some (JArr ys)" by simp_all
    have "obj_get M k = Some (JArr (set_dedup (xs @ ys)))"
      by (rule merged_seq_both [OF assms b m a])
    then show "\<exists>zs. obj_get M k = Some (JArr zs) \<and> set zs = set xs \<union> set ys
                    \<and> (distinct (xs @ ys) \<longrightarrow> zs = xs @ ys)"
      by (simp add: set_set_dedup set_dedup_distinct)
  next
    fix k ys
    assume "obj_get A k = None \<and> obj_get B k = Some (JArr ys)"
    then have a: "obj_get A k = None" and b: "obj_get B k = Some (JArr ys)" by simp_all
    have "obj_get M k = Some (JArr (set_dedup ys))"
      by (rule merged_seq_new [OF assms b m a])
    then show "\<exists>zs. obj_get M k = Some (JArr zs) \<and> set zs = set ys"
      by (simp add: set_set_dedup)
  next
    fix k
    assume "obj_get B k = None"
    then show "obj_get M k = obj_get A k"
      using m merge_loop_frame [of A B M k] by (simp add: mergeConfigs_def obj_get_None_iff)
  next
    fix k zs
    assume "shapes_agree A B" and "obj_get M k = Some (JArr zs)"
    then show "set zs = set (sequence_at A k) \<union> set (sequence_at B k)"
      using merged_sequence_fields [OF assms _ m] by simp
  qed
  show ?thesis
  proof (rule conjI [OF total], rule allI, rule impI)
    fix M assume m: "mergeConfigs (JObj A) B = Inr M"
    show "(\<forall>k xs ys. obj_get A k = Some (JArr xs) \<and> obj_get B k = Some (JArr ys) \<longrightarrow>
               (\<exists>zs. obj_get M k = Some (JArr zs) \<and> set zs = set xs \<union> set ys
                    \<and> (distinct (xs @ ys) \<longrightarrow> zs = xs @ ys)))
          \<and> (\<forall>k ys. obj_get A k = None \<and> obj_get B k = Some (JArr ys) \<longrightarrow>
               (\<exists>zs. obj_get M k = Some (JArr zs) \<and> set zs = set ys))
          \<and> (\<forall>k. obj_get B k = None \<longrightarrow> obj_get M k = obj_get A k)
          \<and> (shapes_agree A B \<longrightarrow>
               (\<forall>k zs. obj_get M k = Some (JArr zs) \<longrightarrow>
                  set zs = set (sequence_at A k) \<union> set (sequence_at B k)))"
      by (rule rest [OF m])
  qed
qed

text \<open>
  C5 fails on the code for documents in which the base holds a scalar where the incoming
  document holds a sequence; no key holds a sequence in both, so the claim's condition is
  met. For \<open>A = {no-console: error}\<close> and \<open>B = {no-console: [warn]}\<close> the result's
  sequence holds the characters \<open>e\<close>, \<open>r\<close>, \<open>o\<close>, which are in no sequence of \<open>A\<close> or
  \<open>B\<close>; and for a base nested document under an incoming sequence the merge throws and
  there is no result. Where the shapes agree the merge does what the claim says of the
  fields of the two documents (\<open>merge_sequences_agreeing_shapes\<close>).
\<close>

theorem C5_sequence_field_not_union:
  "mergeConfigs (JObj [(''no-console'', JStr ''error'')]) [(''no-console'', JArr [JStr ''warn''])]
     = Inr [(''no-console'', JArr [JStr ''e'', JStr ''r'', JStr ''o'', JStr ''warn''])]
   \<and> sequence_at [(''no-console'', JStr ''error'')] ''no-console'' = []
   \<and> sequence_at [(''no-console'', JArr [JStr ''warn''])] ''no-console'' = [JStr ''warn'']
   \<and> set [JStr ''e'', JStr ''r'', JStr ''o'', JStr ''warn'']
         \<noteq> set ([] @ [JStr ''warn''])
   \<and> mergeConfigs (JObj [(''env'', JObj [(''node'', JBool True)])]) [(''env'', JArr [JStr ''x''])]
       = Inl TypeError"
proof -
  have a: "mergeConfigs (JObj [(''no-console'', JStr ''error'')]) [(''no-console'', JArr [JStr ''warn''])]
     = Inr [(''no-console'', JArr [JStr ''e'', JStr ''r'', JStr ''o'', JStr ''warn''])]"
    by (simp add: merge_eval obj_get_Cons obj_get_Nil obj_set_Cons obj_set_Nil key_eval)
  have b: "sequence_at [(''no-console'', JStr ''error'')] ''no-console'' = []"
    by (simp add: sequence_at_def obj_get_Cons)
  have c: "sequence_at [(''no-console'', JArr [JStr ''warn''])] ''no-console'' = [JStr ''warn'']"
    by (simp add: sequence_at_def obj_get_Cons)
  have d: "set [JStr ''e'', JStr ''r'', JStr ''o'', JStr ''warn''] \<noteq> set ([] @ [JStr ''warn''])"
    by auto
  have e: "mergeConfigs (JObj [(''env'', JObj [(''node'', JBool True)])]) [(''env'', JArr [JStr ''x''])]
       = Inl TypeError"
    by (simp add: merge_eval obj_get_Cons)
  show ?thesis using a b c d e by (intro conjI)
qed

text \<open>
  C6 (as amended). For every configuration document \<open>X\<close>, the merge of \<open>X\<close> with itself
  is \<open>X\<close> with every sequence reduced to the first occurrences of its elements; it is \<open>X\<close>
  itself when no sequence of \<open>X\<close> holds an element twice; and merging the result with itself
  changes nothing more.
\<close>

theorem C6_merge_self:
  assumes "document X"
  shows "mergeConfigs (JObj X) X = Inr (dedup_doc X)
       \<and> (distinct_seqs X \<longrightarrow> mergeConfigs (JObj X) X = Inr X)
       \<and> mergeConfigs (JObj (dedup_doc X)) (dedup_doc X) = Inr (dedup_doc X)"
proof -
  have first: "mergeConfigs (JObj X) X = Inr (dedup_doc X)"
    using assms by (rule merge_self)
  have second: "distinct_seqs X \<longrightarrow> mergeConfigs (JObj X) X = Inr X"
    using first by (simp add: dedup_doc_distinct_seqs)
  have doc: "document (dedup_doc X)" and dis: "distinct_seqs (dedup_doc X)"
    using assms dedup_doc_document [of X] by (simp_all add: document_def plain_keys_def keys_dedup_doc)
  have third: "mergeConfigs (JObj (dedup_doc X)) (dedup_doc X) = Inr (dedup_doc X)"
    using merge_self [OF doc] dis by (simp add: dedup_doc_distinct_seqs)
  show ?thesis using first second third by blast
qed

text \<open>
  C6 as the specification states it fails for a sequence with a repeated element: the merge
  of the document with itself has one element where the document has two, and no
  reordering of a sequence changes its length.
\<close>

theorem C6_counterexample:
  "mergeConfigs (JObj [(''extends'', JArr [JStr ''a'', JStr ''a''])])
     [(''extends'', JArr [JStr ''a'', JStr ''a''])]
   = Inr [(''extends'', JArr [JStr ''a''])]"
  by (simp add: merge_eval obj_get_Cons obj_get_Nil obj_set_Cons obj_set_Nil key_eval)

text \<open>A document with a nested document and a repeated element in a nested sequence.\<close>

theorem C6_witness:
  "document [(''extends'', JArr [JStr ''a'', JStr ''b'']),
             (''env'', JObj [(''node'', JBool True), (''globals'', JArr [JStr ''x'', JStr ''x''])])]
   \<and> mergeConfigs
        (JObj [(''extends'', JArr [JStr ''a'', JStr ''b'']),
               (''env'', JObj [(''node'', JBool True), (''globals'', JArr [JStr ''x'', JStr ''x''])])])
        [(''extends'', JArr [JStr ''a'', JStr ''b'']),
         (''env'', JObj [(''node'', JBool True), (''globals'', JArr [JStr ''x'', JStr ''x''])])]
       = Inr [(''extends'', JArr [JStr ''a'', JStr ''b'']),
              (''env'', JObj [(''node'', JBool True), (''globals'', JArr [JStr ''x''])])]"
proof -
  let ?X = "[(''extends'', JArr [JStr ''a'', JStr ''b'']),
             (''env'', JObj [(''node'', JBool True), (''globals'', JArr [JStr ''x'', JStr ''x''])])]"
  have h: "document ?X" by (simp add: document_def plain_keys_def)
  have d: "dedup_doc ?X = [(''extends'', JArr [JStr ''a'', JStr ''b'']),
              (''env'', JObj [(''node'', JBool True), (''globals'', JArr [JStr ''x''])])]"
    by (simp add: set_dedup_def)
  show ?thesis using h C6_merge_self [OF h] d by simp
qed

section \<open>The update of the project manifest\<close>

lemma obj_get_updatePackageJson:
  "obj_get (updatePackageJson onDisk updates) k =
     (case map_of (rev updates) k of Some v \<Rightarrow> Some v | None \<Rightarrow> obj_get onDisk k)"
  by (simp add: updatePackageJson_def obj_get_obj_sets)

lemma packageJsonUpdates_eq:
  "packageJsonUpdates projectType usePrettier useHusky packageJson =
     (if useHusky
      then [(''scripts'', JObj (updatedScripts projectType usePrettier packageJson)),
            (''lint-staged'',
               JObj [(''*.{js,jsx,ts,tsx,svelte}'', strs [''eslint --fix'']),
                     (''*.{json,md,css,html,svelte}'', strs [''prettier --write''])])]
      else [(''scripts'', JObj (updatedScripts projectType usePrettier packageJson))])"
  by (simp add: packageJsonUpdates_def Let_def obj_set_Cons obj_set_Nil key_eval)

lemma obj_get_updatedScripts:
  "obj_get (updatedScripts projectType usePrettier packageJson) name =
     (if name = ''format'' \<and> usePrettier
      then Some (or_default (script_of packageJson ''format'') (JStr ''prettier --write .''))
      else if projectType = ''svelte'' \<and> name = ''format''
      then Some (JStr ''prettier --write --plugin prettier-plugin-svelte .'')
      else if projectType = ''svelte'' \<and> name = ''check''
      then Some (JStr ''svelte-check --tsconfig ./tsconfig.json'')
      else if name = ''lint:fix''
      then Some (if projectType = ''svelte'' then JStr ''eslint --ignore-path .gitignore --fix .''
                 else or_default (script_of packageJson ''lint:fix'') (JStr ''eslint . --fix''))
      else if name = ''lint''
      then Some (if projectType = ''svelte'' then JStr ''eslint --ignore-path .gitignore .''
                 else or_default (script_of packageJson ''lint'') (JStr ''eslint .''))
      else obj_get (object_operand packageJson ''scripts'') name)"
  by (simp add: updatedScripts_def Let_def obj_sets_Cons obj_sets_Nil obj_get_obj_set)

lemma updatedScripts_entry:
  assumes "obj_get packageJson ''scripts'' = Some (JObj ps)" and "obj_get ps name = Some v"
  shows "obj_get (updatedScripts projectType usePrettier packageJson) name \<noteq> None"
    and "name \<notin> set [''lint'', ''lint:fix'', ''format'', ''check''] \<Longrightarrow>
         obj_get (updatedScripts projectType usePrettier packageJson) name = Some v"
    and "projectType \<noteq> ''svelte'' \<Longrightarrow> truthy v \<Longrightarrow>
         obj_get (updatedScripts projectType usePrettier packageJson) name = Some v"
proof -
  have op: "obj_get (object_operand packageJson ''scripts'') name = Some v"
    using assms by (simp add: object_operand_def)
  have sc: "script_of packageJson name = Some v"
    using assms by (simp add: script_of_def)
  show "obj_get (updatedScripts projectType usePrettier packageJson) name \<noteq> None"
    by (simp add: obj_get_updatedScripts op)
  show "obj_get (updatedScripts projectType usePrettier packageJson) name = Some v"
    if "name \<notin> set [''lint'', ''lint:fix'', ''format'', ''check'']"
    using that by (simp add: obj_get_updatedScripts op)
  show "obj_get (updatedScripts projectType usePrettier packageJson) name = Some v"
    if "projectType \<noteq> ''svelte''" "truthy v"
  proof -
    have "or_default (script_of packageJson name) d = v" for d
      using that(2) by (simp add: sc or_default_def)
    then show ?thesis using that(1) by (auto simp: obj_get_updatedScripts op)
  qed
qed

text \<open>
  C10 (as amended). In the manifest written by the update step, every top-level field other
  than \<open>scripts\<close> and \<open>lint-staged\<close> is the one read from disk, and so is \<open>lint-staged\<close>
  when the hook manager is off. Its \<open>scripts\<close> is an object in which every script of the
  manifest read before is still present; a script other than \<open>lint\<close>, \<open>lint:fix\<close>,
  \<open>format\<close> and \<open>check\<close> keeps its value; and for a project type other than svelte
  every script with a truthy (non-empty) value keeps it, \<open>lint\<close>, \<open>lint:fix\<close> and
  \<open>format\<close> included.
\<close>

theorem C10_manifest_update:
  "(\<forall>k. k \<noteq> ''scripts'' \<and> k \<noteq> ''lint-staged'' \<longrightarrow>
        obj_get (updatePackageJson onDisk
                   (packageJsonUpdates projectType usePrettier useHusky packageJson)) k
          = obj_get onDisk k)
   \<and> (\<not> useHusky \<longrightarrow>
        obj_get (updatePackageJson onDisk
                   (packageJsonUpdates projectType usePrettier useHusky packageJson)) ''lint-staged''
          = obj_get onDisk ''lint-staged'')
   \<and> (\<exists>scripts.
        obj_get (updatePackageJson onDisk
                   (packageJsonUpdates projectType usePrettier useHusky packageJson)) ''scripts''
          = Some (JObj scripts)
      \<and> (\<forall>ps name v.
            obj_get packageJson ''scripts'' = Some (JObj ps) \<and> obj_get ps name = Some v \<longrightarrow>
              obj_get scripts name \<noteq> None
            \<and> (name \<notin> set [''lint'', ''lint:fix'', ''format'', ''check''] \<longrightarrow>
                  obj_get scripts name = Some v)
            \<and> (projectType \<noteq> ''svelte'' \<and> truthy v \<longrightarrow> obj_get scripts name = Some v)))"
proof -
  let ?r = "updatePackageJson onDisk (packageJsonUpdates projectType usePrettier useHusky packageJson)"
  have other: "\<forall>k. k \<noteq> ''scripts'' \<and> k \<noteq> ''lint-staged'' \<longrightarrow> obj_get ?r k = obj_get onDisk k"
    by (simp add: obj_get_updatePackageJson packageJsonUpdates_eq)
  have staged: "\<not> useHusky \<longrightarrow> obj_get ?r ''lint-staged'' = obj_get onDisk ''lint-staged''"
    by (simp add: obj_get_updatePackageJson packageJsonUpdates_eq)
  have scripts: "obj_get ?r ''scripts'' = Some (JObj (updatedScripts projectType usePrettier packageJson))"
    by (simp add: obj_get_updatePackageJson packageJsonUpdates_eq)
  have entries: "\<forall>ps name v.
            obj_get packageJson ''scripts'' = Some (JObj ps) \<and> obj_get ps name = Some v \<longrightarrow>
              obj_get (updatedScripts projectType usePrettier packageJson) name \<noteq> None
            \<and> (name \<notin> set [''lint'', ''lint:fix'', ''format'', ''check''] \<longrightarrow>
                  obj_get (updatedScripts projectType usePrettier packageJson) name = Some v)
            \<and> (projectType \<noteq> ''svelte'' \<and> truthy v \<longrightarrow>
                  obj_get (updatedScripts projectType usePrettier packageJson) name = Some v)"
  proof (intro allI impI, elim conjE)
    fix ps name v
    assume a: "obj_get packageJson ''scripts'' = Some (JObj ps)" and b: "obj_get ps name = Some v"
    note e = updatedScripts_entry [OF a b, of projectType usePrettier]
    show "obj_get (updatedScripts projectType usePrettier packageJson) name \<noteq> None
            \<and> (name \<notin> set [''lint'', ''lint:fix'', ''format'', ''check''] \<longrightarrow>
                  obj_get (updatedScripts projectType usePrettier packageJson) name = Some v)
            \<and> (projectType \<noteq> ''svelte'' \<and> truthy v \<longrightarrow>
                  obj_get (updatedScripts projectType usePrettier packageJson) name = Some v)"
      using e(1) e(2) e(3) by blast
  qed
  from scripts entries
  have "\<exists>scripts. obj_get ?r ''scripts'' = Some (JObj scripts)
      \<and> (\<forall>ps name v.
            obj_get packageJson ''scripts'' = Some (JObj ps) \<and> obj_get ps name = Some v \<longrightarrow>
              obj_get scripts name \<noteq> None
            \<and> (name \<notin> set [''lint'', ''lint:fix'', ''format'', ''check''] \<longrightarrow>
                  obj_get scripts name = Some v)
            \<and> (projectType \<noteq> ''svelte'' \<and> truthy v \<longrightarrow> obj_get scripts name = Some v))"
    by (intro exI [of _ "updatedScripts projectType usePrettier packageJson"] conjI)
  with other staged show ?thesis by (intro conjI)
qed

text \<open>
  C10 as the specification states it fails for a script that exists with the empty string
  as its value: \<open>packageJson.scripts?.lint || 'eslint .'\<close> replaces it.
\<close>

theorem C10_counterexample:
  "updatePackageJson [(''name'', JStr ''app''), (''scripts'', JObj [(''lint'', JStr [])])]
     (packageJsonUpdates ''react'' False False
        [(''name'', JStr ''app''), (''scripts'', JObj [(''lint'', JStr [])])])
   = [(''name'', JStr ''app''),
      (''scripts'', JObj [(''lint'', JStr ''eslint .''), (''lint:fix'', JStr ''eslint . --fix'')])]"
  by (simp add: updatePackageJson_def packageJsonUpdates_eq updatedScripts_def Let_def
      object_operand_def script_of_def or_default_def obj_get_Cons obj_get_Nil
      obj_sets_Cons obj_sets_Nil obj_set_Cons obj_set_Nil key_eval)

text \<open>A react project with the formatter and the hook manager, and a \<open>lint\<close> script of its own.\<close>

theorem C10_witness:
  "obj_get [(''name'', JStr ''app''),
            (''scripts'', JObj [(''test'', JStr ''jest''), (''lint'', JStr ''eslint src'')])] ''scripts''
     = Some (JObj [(''test'', JStr ''jest''), (''lint'', JStr ''eslint src'')])
   \<and> obj_get [(''test'', JStr ''jest''), (''lint'', JStr ''eslint src'')] ''lint''
       = Some (JStr ''eslint src'')
   \<and> ''react'' \<noteq> ''svelte'' \<and> truthy (JStr ''eslint src'')
   \<and> ''name'' \<noteq> ''scripts'' \<and> ''name'' \<noteq> ''lint-staged''
   \<and> obj_get (updatePackageJson
        [(''name'', JStr ''app''),
         (''scripts'', JObj [(''test'', JStr ''jest''), (''lint'', JStr ''eslint src'')])]
        (packageJsonUpdates ''react'' True True
           [(''name'', JStr ''app''),
            (''scripts'', JObj [(''test'', JStr ''jest''), (''lint'', JStr ''eslint src'')])]))
        ''name'' = Some (JStr ''app'')
   \<and> (\<exists>scripts.
        obj_get (updatePackageJson
          [(''name'', JStr ''app''),
           (''scripts'', JObj [(''test'', JStr ''jest''), (''lint'', JStr ''eslint src'')])]
          (packageJsonUpdates ''react'' True True
             [(''name'', JStr ''app''),
              (''scripts'', JObj [(''test'', JStr ''jest''), (''lint'', JStr ''eslint src'')])]))
          ''scripts'' = Some (JObj scripts)
      \<and> obj_get scripts ''lint'' = Some (JStr ''eslint src''))"
proof -
  let ?ps = "[(''test'', JStr ''jest''), (''lint'', JStr ''eslint src'')]"
  let ?pj = "[(''name'', JStr ''app''), (''scripts'', JObj ?ps)]"
  have h1: "obj_get ?pj ''scripts'' = Some (JObj ?ps)" by (simp add: obj_get_Cons)
  have h2: "obj_get ?ps ''lint'' = Some (JStr ''eslint src'')" by (simp add: obj_get_Cons)
  have h3: "''react'' \<noteq> ''svelte''" by simp
  have h4: "truthy (JStr ''eslint src'')" by simp
  have h5: "''name'' \<noteq> ''scripts''" "''name'' \<noteq> ''lint-staged''" by simp_all
  have n: "obj_get ?pj ''name'' = Some (JStr ''app'')" by (simp add: obj_get_Cons)
  note inst = C10_manifest_update [of ?pj "''react''" True True ?pj]
  have a: "obj_get (updatePackageJson ?pj (packageJsonUpdates ''react'' True True ?pj)) ''name''
             = Some (JStr ''app'')"
    using inst h5 n by metis
  have b: "\<exists>scripts.
        obj_get (updatePackageJson ?pj (packageJsonUpdates ''react'' True True ?pj)) ''scripts''
          = Some (JObj scripts)
      \<and> obj_get scripts ''lint'' = Some (JStr ''eslint src'')"
    using inst h1 h2 h3 h4 by blast
  show ?thesis using h1 h2 h3 h4 h5 a b by blast
qed

section \<open>The existing configuration's \<open>extends\<close>\<close>

lemma merged_airbnb:
  "mergeConfigs (JObj (baseConfig projectType False [])) [(''extends'', JArr [JStr ''airbnb''])] =
     Inr (baseConfig projectType False [] @ [(''extends'', JArr [JStr ''airbnb''])])"
  by (simp add: merge_eval baseConfig_def obj_get_Cons obj_get_Nil obj_set_Cons obj_set_Nil key_eval)

lemma append_to_extends:
  assumes "append_to c ''extends'' items = Inr c'" and "obj_get c ''extends'' = Some (JArr xs)"
  shows "obj_get c' ''extends'' = Some (JArr (xs @ map JStr items))"
proof -
  have "c' = obj_set c ''extends'' (JArr (xs @ map JStr items))"
    using assms by (simp add: append_to_array)
  then show ?thesis by (simp add: obj_get_obj_set)
qed

lemma append_to_other:
  assumes "append_to c k items = Inr c'" and "k' \<noteq> k"
  shows "obj_get c' k' = obj_get c k'"
proof -
  from assms(1) obtain ys where "c' = obj_set c k (JArr (ys @ map JStr items))"
    by (auto simp: append_to_def and_then_eq_Inr)
  then show ?thesis using assms(2) by (simp add: obj_get_obj_set)
qed

lemma set_nested_other:
  assumes "set_nested c k1 k2 v = Inr c'" and "k' \<noteq> k1"
  shows "obj_get c' k' = obj_get c k'"
  using assms
  by (auto simp: set_nested_def obj_get_obj_set split: option.splits jsval.splits)

lemma configureReact_extends:
  assumes "configureReact c useTypeScript = Inr c'" and "obj_get c ''extends'' = Some (JArr xs)"
  shows "\<exists>ys. obj_get c' ''extends'' = Some (JArr (xs @ ys))"
proof -
  from assms(1) obtain c1 c2 where
    c1: "append_to c ''extends''
           [''plugin:react/recommended'', ''plugin:react/jsx-runtime'',
            ''plugin:react-hooks/recommended'', ''plugin:jsx-a11y/recommended'',
            ''plugin:import/errors'', ''plugin:import/warnings''] = Inr c1"
    and c2: "append_to c1 ''plugins'' [''react'', ''react-hooks'', ''jsx-a11y'', ''import''] = Inr c2"
    and fin: "(let c3 = extend_object c2 ''settings''
                   [(''react'', JObj [(''version'', JStr ''detect'')]),
                    (''import/resolver'',
                       JObj [(''node'', JObj [(''extensions'', strs [''.js'', ''.jsx'', ''.ts'', ''.tsx''])])])];
            c4 = extend_object c3 ''rules''
                   [(''react/prop-types'', JStr (if useTypeScript then ''off'' else ''error'')),
                    (''react/jsx-uses-react'', JStr ''error''),
                    (''react/jsx-uses-vars'', JStr ''error''),
                    (''react-hooks/rules-of-hooks'', JStr ''error''),
                    (''react-hooks/exhaustive-deps'', JStr ''warn''),
                    (''import/no-unresolved'', JStr ''error''),
                    (''import/named'', JStr ''error''),
                    (''import/default'', JStr ''error''),
                    (''import/namespace'', JStr ''error'')]
        in if useTypeScript
           then set_nested c4 ''parserOptions'' ''ecmaFeatures'' (JObj [(''jsx'', JBool True)])
           else Inr c4) = Inr c'"
    unfolding configureReact_def and_then_eq_Inr by blast
  have e1: "obj_get c1 ''extends'' = Some (JArr (xs @ map JStr
           [''plugin:react/recommended'', ''plugin:react/jsx-runtime'',
            ''plugin:react-hooks/recommended'', ''plugin:jsx-a11y/recommended'',
            ''plugin:import/errors'', ''plugin:import/warnings'']))"
    by (rule append_to_extends [OF c1 assms(2)])
  have e2: "obj_get c2 ''extends'' = obj_get c1 ''extends''"
    by (rule append_to_other [OF c2]) simp
  have "obj_get c' ''extends'' = obj_get c2 ''extends''"
    using fin
    by (cases useTypeScript)
       (auto simp: Let_def obj_get_extend_object_other dest!: set_nested_other [where k' = "''extends''"])
  then show ?thesis using e1 e2 by simp
qed

lemma configureNextjs_extends:
  assumes "configureNextjs c = Inr c'" and "obj_get c ''extends'' = Some (JArr xs)"
  shows "\<exists>ys. obj_get c' ''extends'' = Some (JArr (xs @ ys))"
  using append_to_extends [OF assms(1) [unfolded configureNextjs_def] assms(2)] by blast

lemma configureNodejs_extends:
  assumes "configureNodejs c = Inr c'" and "obj_get c ''extends'' = Some (JArr xs)"
  shows "\<exists>ys. obj_get c' ''extends'' = Some (JArr (xs @ ys))"
proof -
  from assms(1) obtain c1 c2 where
    c1: "append_to c ''extends'' [''plugin:node/recommended''] = Inr c1"
    and c2: "append_to c1 ''plugins'' [''node''] = Inr c2"
    and fin: "\<exists>upd. c' = extend_object c2 ''rules'' upd"
    unfolding configureNodejs_def and_then_eq_Inr by blast
  have "obj_get c2 ''extends'' = obj_get c1 ''extends''"
    by (rule append_to_other [OF c2]) simp
  moreover have "obj_get c' ''extends'' = obj_get c2 ''extends''"
    using fin by (auto simp: obj_get_extend_object_other)
  ultimately show ?thesis using append_to_extends [OF c1 assms(2)] by simp
qed

lemma configureVue_extends:
  assumes "configureVue c = Inr c'" and "obj_get c ''extends'' = Some (JArr xs)"
  shows "\<exists>ys. obj_get c' ''extends'' = Some (JArr (xs @ ys))"
proof -
  from assms(1) obtain c1 c2 where
    c1: "append_to c ''extends'' [''plugin:vue/vue3-recommended''] = Inr c1"
    and c2: "append_to c1 ''plugins'' [''vue''] = Inr c2"
    and fin: "c' = obj_set c2 ''parser'' (JStr ''vue-eslint-parser'')"
    unfolding configureVue_def and_then_eq_Inr by blast
  have "obj_get c2 ''extends'' = obj_get c1 ''extends''"
    by (rule append_to_other [OF c2]) simp
  moreover have "obj_get c' ''extends'' = obj_get c2 ''extends''"
    using fin by (simp add: obj_get_obj_set)
  ultimately show ?thesis using append_to_extends [OF c1 assms(2)] by simp
qed

lemma configureAngular_extends:
  assumes "configureAngular c = Inr c'" and "obj_get c ''extends'' = Some (JArr xs)"
  shows "\<exists>ys. obj_get c' ''extends'' = Some (JArr (xs @ ys))"
proof -
  from assms(1) obtain c1 where
    c1: "append_to c ''extends''
           [''plugin:@angular-eslint/recommended'',
            ''plugin:@angular-eslint/template/process-inline-templates''] = Inr c1"
    and c2: "append_to c1 ''plugins'' [''@angular-eslint''] = Inr c'"
    unfolding configureAngular_def and_then_eq_Inr by blast
  have "obj_get c' ''extends'' = obj_get c1 ''extends''"
    by (rule append_to_other [OF c2]) simp
  then show ?thesis using append_to_extends [OF c1 assms(2)] by simp
qed

lemma configureTypeScript_extends:
  assumes "configureTypeScript c = Inr c'" and "obj_get c ''extends'' = Some (JArr xs)"
  shows "\<exists>ys. obj_get c' ''extends'' = Some (JArr (xs @ ys))"
proof -
  let ?c0 = "obj_set c ''parser'' (JStr ''@typescript-eslint/parser'')"
  from assms(1) obtain c1 c2 where
    c1: "append_to ?c0 ''plugins'' [''@typescript-eslint''] = Inr c1"
    and c2: "append_to c1 ''extends'' [''plugin:@typescript-eslint/recommended''] = Inr c2"
    and fin: "\<exists>upd. c' = extend_object c2 ''rules'' upd"
    unfolding configureTypeScript_def Let_def and_then_eq_Inr by blast
  have "obj_get c1 ''extends'' = obj_get ?c0 ''extends''"
    by (rule append_to_other [OF c1]) simp
  then have e1: "obj_get c1 ''extends'' = Some (JArr xs)"
    using assms(2) by (simp add: obj_get_obj_set)
  have "obj_get c' ''extends'' = obj_get c2 ''extends''"
    using fin by (auto simp: obj_get_extend_object_other)
  then show ?thesis using append_to_extends [OF c2 e1] by simp
qed

lemma configurePrettier_extends:
  assumes "configurePrettier c = Inr c'" and "obj_get c ''extends'' = Some (JArr xs)"
  shows "\<exists>ys. obj_get c' ''extends'' = Some (JArr (xs @ ys))"
proof -
  from assms(1) obtain c1 where
    c1: "append_to c ''extends'' [''plugin:prettier/recommended''] = Inr c1"
    and fin: "\<exists>upd. c' = extend_object c1 ''rules'' upd"
    unfolding configurePrettier_def and_then_eq_Inr by blast
  have "obj_get c' ''extends'' = obj_get c1 ''extends''"
    using fin by (auto simp: obj_get_extend_object_other)
  then show ?thesis using append_to_extends [OF c1 assms(2)] by simp
qed

lemma configureProject_extends:
  assumes "configureProject projectType useTypeScript c = Inr c'"
    and "projectType \<noteq> ''svelte''" and "obj_get c ''extends'' = Some (JArr xs)"
  shows "\<exists>ys. obj_get c' ''extends'' = Some (JArr (xs @ ys))"
proof (cases "projectType = ''react''")
  case True
  have "configureReact c useTypeScript = Inr c'"
    using assms(1) unfolding configureProject_def True by simp
  then show ?thesis using configureReact_extends assms(3) by blast
next
  case not_react: False
  show ?thesis
  proof (cases "projectType = ''nextjs''")
    case True
    have "configureNextjs c = Inr c'"
      using assms(1) unfolding configureProject_def True by simp
    then show ?thesis using configureNextjs_extends assms(3) by blast
  next
    case not_next: False
    show ?thesis
    proof (cases "projectType = ''nodejs''")
      case True
      have "configureNodejs c = Inr c'"
        using assms(1) unfolding configureProject_def True by simp
      then show ?thesis using configureNodejs_extends assms(3) by blast
    next
      case not_node: False
      show ?thesis
      proof (cases "projectType = ''vue''")
        case True
        have "configureVue c = Inr c'"
          using assms(1) unfolding configureProject_def True by simp
        then show ?thesis using configureVue_extends assms(3) by blast
      next
        case not_vue: False
        show ?thesis
        proof (cases "projectType = ''angular''")
          case True
          have "configureAngular c = Inr c'"
            using assms(1) unfolding configureProject_def True by simp
          then show ?thesis using configureAngular_extends assms(3) by blast
        next
          case False
          have "Inr c = (Inr c' :: error + props)"
            using assms(1) unfolding configureProject_def
            by (simp only: not_react not_next not_node not_vue False assms(2) if_False)
          then have "c' = c" by simp
          then show ?thesis using assms(3) by simp
        qed
      qed
    qed
  qed
qed

text \<open>
  For every project type but svelte, each element of the \<open>extends\<close> of an existing
  configuration that is kept is in the \<open>extends\<close> of the generated configuration.
\<close>

lemma extends_kept_unless_svelte:
  assumes pk: "plain_keys existing" and ex: "obj_get existing ''extends'' = Some (JArr es)"
    and ns: "projectType \<noteq> ''svelte''"
    and gen: "generateConfig projectType useTypeScript useStrict usePrettier packageJson
                (chooseExistingConfig (Some existing) False) = Inr cfg"
  shows "\<exists>xs. obj_get cfg ''extends'' = Some (JArr xs) \<and> set es \<subseteq> set xs"
proof -
  from gen obtain c0 c1 c2 where
    m: "mergeConfigs (JObj (baseConfig projectType useStrict packageJson)) existing = Inr c0"
    and p: "configureProject projectType useTypeScript c0 = Inr c1"
    and t: "(if useTypeScript \<and> projectType \<noteq> ''nextjs'' then configureTypeScript c1 else Inr c1) = Inr c2"
    and f: "(if usePrettier then configurePrettier c2 else Inr c2) = Inr cfg"
    unfolding generateConfig_def chooseExistingConfig_def and_then_eq_Inr by auto
  have "obj_get (baseConfig projectType useStrict packageJson) ''extends'' = None"
    by (simp add: baseConfig_def obj_get_Cons obj_get_Nil)
  then have e0: "obj_get c0 ''extends'' = Some (JArr (set_dedup es))"
    by (rule merged_seq_new [OF pk ex m])
  from configureProject_extends [OF p ns e0] obtain y1 where
    e1: "obj_get c1 ''extends'' = Some (JArr (set_dedup es @ y1))" by blast
  have "\<exists>y2. obj_get c2 ''extends'' = Some (JArr ((set_dedup es @ y1) @ y2))"
  proof (cases "useTypeScript \<and> projectType \<noteq> ''nextjs''")
    case True
    then have "configureTypeScript c1 = Inr c2" using t by simp
    from configureTypeScript_extends [OF this e1] show ?thesis .
  next
    case False
    then have "c2 = c1" using t by (simp split: if_splits)
    then show ?thesis using e1 by simp
  qed
  then obtain y2 where e2: "obj_get c2 ''extends'' = Some (JArr ((set_dedup es @ y1) @ y2))" ..
  have "\<exists>y3. obj_get cfg ''extends'' = Some (JArr (((set_dedup es @ y1) @ y2) @ y3))"
  proof (cases usePrettier)
    case True
    then have "configurePrettier c2 = Inr cfg" using f by simp
    from configurePrettier_extends [OF this e2] show ?thesis .
  next
    case False
    then have "cfg = c2" using f by simp
    then show ?thesis using e2 by simp
  qed
  then obtain y3 where "obj_get cfg ''extends'' = Some (JArr (((set_dedup es @ y1) @ y2) @ y3))" ..
  then show ?thesis by (simp add: set_set_dedup)
qed

text \<open>
  C2 fails for svelte. With an existing configuration whose \<open>extends\<close> is \<open>[airbnb]\<close>, kept
  by the user, the generated svelte configuration extends only \<open>eslint:recommended\<close> and
  \<open>plugin:svelte/recommended\<close>: \<open>configureSvelte\<close> assigns \<open>extends\<close> where every
  other rule function appends to it (\<open>extends_kept_unless_svelte\<close>). The same input for
  vue keeps \<open>airbnb\<close>.
\<close>

theorem C2_svelte_discards_extends:
  "(\<exists>cfg. generateConfig ''svelte'' False False False []
            (chooseExistingConfig (Some [(''extends'', JArr [JStr ''airbnb''])]) False) = Inr cfg
         \<and> obj_get cfg ''extends'' =
             Some (JArr [JStr ''eslint:recommended'', JStr ''plugin:svelte/recommended'']))
   \<and> (\<exists>cfg. generateConfig ''vue'' False False False []
            (chooseExistingConfig (Some [(''extends'', JArr [JStr ''airbnb''])]) False) = Inr cfg
         \<and> obj_get cfg ''extends'' =
             Some (JArr [JStr ''airbnb'', JStr ''plugin:vue/vue3-recommended'']))"
proof -
  have sv: "\<exists>cfg. generateConfig ''svelte'' False False False []
            (chooseExistingConfig (Some [(''extends'', JArr [JStr ''airbnb''])]) False) = Inr cfg
         \<and> obj_get cfg ''extends'' =
             Some (JArr [JStr ''eslint:recommended'', JStr ''plugin:svelte/recommended''])"
    by (simp add: generateConfig_def chooseExistingConfig_def merged_airbnb and_then_Inr
        configureProject_def configureSvelte_plain obj_get_extend_object_other obj_get_obj_set
        strs_def)
  have gv: "generateConfig ''vue'' False False False []
            (chooseExistingConfig (Some [(''extends'', JArr [JStr ''airbnb''])]) False)
          = configureVue (baseConfig ''vue'' False [] @ [(''extends'', JArr [JStr ''airbnb''])])"
    by (simp add: generateConfig_def chooseExistingConfig_def merged_airbnb and_then_Inr
        configureProject_def and_then_def split: sum.splits)
  have vu: "\<exists>cfg. generateConfig ''vue'' False False False []
            (chooseExistingConfig (Some [(''extends'', JArr [JStr ''airbnb''])]) False) = Inr cfg
         \<and> obj_get cfg ''extends'' =
             Some (JArr [JStr ''airbnb'', JStr ''plugin:vue/vue3-recommended''])"
    unfolding gv
    by (simp add: configureVue_def baseConfig_def step_eval key_eval cong: and_then_weak_cong)
  show ?thesis using sv vu by blast
qed

end
